theory Spec2Isabelle
  imports Complex_Main "HOL-Library.Word"
begin

section \<open>Numbers, typed arrays and the rendering context\<close>

text \<open>
  Sphere.js computes with JavaScript numbers (IEEE doubles, type \<open>'d\<close>) and stores them in
  \<open>Float32Array\<close>s (elements of type \<open>'f\<close>). The arithmetic itself is a parameter of the
  model: every function takes a record \<open>A\<close> of the operations it calls, so that a theorem
  proved for all \<open>A\<close> holds whatever the operations round to. \<open>num\<close> reads a numeric literal
  or an integral count, \<open>toF32\<close> is the conversion done by a store into a \<open>Float32Array\<close>,
  \<open>toD\<close> the (exact) read of an element, \<open>nan\<close> the number that \<open>undefined\<close> converts to.
\<close>

record ('d, 'f) arith =
  num :: "rat \<Rightarrow> 'd"
  fadd :: "'d \<Rightarrow> 'd \<Rightarrow> 'd"
  fsub :: "'d \<Rightarrow> 'd \<Rightarrow> 'd"
  fmul :: "'d \<Rightarrow> 'd \<Rightarrow> 'd"
  fdiv :: "'d \<Rightarrow> 'd \<Rightarrow> 'd"
  fcos :: "'d \<Rightarrow> 'd"
  fsin :: "'d \<Rightarrow> 'd"
  fsqrt :: "'d \<Rightarrow> 'd"
  mathPI :: "'d"
  fgt :: "'d \<Rightarrow> 'd \<Rightarrow> bool"
  fne :: "'d \<Rightarrow> 'd \<Rightarrow> bool"
  nan :: "'d"
  toF32 :: "'d \<Rightarrow> 'f"
  toD :: "'f \<Rightarrow> 'd"

text \<open>Exact arithmetic on the reals: the instance at which the model is evaluated.\<close>

definition ideal :: "(real, real) arith" where
  "ideal = \<lparr> num = of_rat, fadd = plus, fsub = minus, fmul = times, fdiv = divide,
             fcos = cos, fsin = sin, fsqrt = sqrt, mathPI = pi,
             fgt = (\<lambda>a b. b < a), fne = (\<lambda>a b. a \<noteq> b), nan = 0,
             toF32 = (\<lambda>x. x), toD = (\<lambda>x. x) \<rparr>"

text \<open>
  A \<open>Float32Array\<close> element read and stored again is unchanged: the property of the
  platform's conversions that copying between two \<open>Float32Array\<close>s relies on.
\<close>

definition f32_exact :: "('d, 'f) arith \<Rightarrow> bool" where
  "f32_exact A = (\<forall>x. toF32 A (toD A x) = x)"

datatype js_error = RangeError | TypeError

text \<open>
  \<open>new Float32Array(n)\<close> and \<open>new Uint16Array(n)\<close>: \<open>n\<close> zeros, a RangeError for a negative
  length. (No upper limit on the length is modelled here; \<open>newFloat32ArrayN\<close> below has
  one.) A typed array never changes its length: a store outside it is ignored, which is
  what \<open>xs[i := v]\<close> does.
\<close>

definition zeros :: "('d, 'f) arith \<Rightarrow> nat \<Rightarrow> 'f list" where
  "zeros A n = replicate n (toF32 A (num A 0))"

definition newFloat32Array :: "('d, 'f) arith \<Rightarrow> int \<Rightarrow> js_error + 'f list" where
  "newFloat32Array A n = (if n < 0 then Inl RangeError else Inr (zeros A (nat n)))"

definition newUint16Array :: "int \<Rightarrow> js_error + 16 word list" where
  "newUint16Array n = (if n < 0 then Inl RangeError else Inr (replicate (nat n) 0))"

text \<open>Reading element \<open>i\<close> as a number: \<open>undefined\<close>, hence NaN, outside the array.\<close>

definition getF :: "('d, 'f) arith \<Rightarrow> 'f list \<Rightarrow> nat \<Rightarrow> 'd" where
  "getF A xs i = (if i < length xs then toD A (xs ! i) else nan A)"

text \<open>
  The rendering context is the log of the calls made on it, with the number of buffers
  it has created. \<open>bufferData\<close> is always called with usage \<open>STATIC_DRAW\<close>.
\<close>

datatype target = ARRAY_BUFFER | ELEMENT_ARRAY_BUFFER

datatype 'f glcall =
    BindBuffer target "nat option"
  | BufferDataFloat target "'f list"
  | BufferDataIndex target "16 word list"

record 'f glctx =
  calls :: "'f glcall list"
  buffers :: nat

definition createBuffer :: "'f glctx \<Rightarrow> nat \<times> 'f glctx" where
  "createBuffer g = (buffers g, g\<lparr>buffers := buffers g + 1\<rparr>)"

section \<open>The Sphere object\<close>

record ('d, 'f) sphere =
  gl :: "'f glctx"
  radius :: 'd
  sectorCount :: int
  stackCount :: int
  smooth :: bool
  vertices :: "'f list"
  normals :: "'f list"
  texCoords :: "'f list"
  indices :: "16 word list"
  interleavedVertices :: "'f list"
  stride :: nat
  vboVertex :: nat
  vboIndex :: nat

definition getIndexCount :: "('d, 'f) sphere \<Rightarrow> nat" where
  "getIndexCount s = length (indices s)"

definition getTriangleCount :: "('d, 'f) sphere \<Rightarrow> rat" where
  "getTriangleCount s = of_nat (getIndexCount s) / 3"

definition getVertexCount :: "('d, 'f) sphere \<Rightarrow> rat" where
  "getVertexCount s = of_nat (length (vertices s)) / 3"

definition getNormalCount :: "('d, 'f) sphere \<Rightarrow> rat" where
  "getNormalCount s = of_nat (length (normals s)) / 3"

definition getTexCoordCount :: "('d, 'f) sphere \<Rightarrow> rat" where
  "getTexCoordCount s = of_nat (length (texCoords s)) / 2"

text \<open>
  \<open>clearArrays\<close> assigns 0 to the \<open>length\<close> of each array. (On a typed array the
  assignment has no effect; every array is replaced by a new one before it is read again.)
\<close>

definition clearArrays :: "('d, 'f) sphere \<Rightarrow> ('d, 'f) sphere" where
  "clearArrays s = s\<lparr>vertices := [], normals := [], texCoords := [], indices := [],
                     interleavedVertices := []\<rparr>"

definition resizeArraysSmooth ::
  "('d, 'f) arith \<Rightarrow> ('d, 'f) sphere \<Rightarrow> js_error + ('d, 'f) sphere" where
  "resizeArraysSmooth A s =
     (let s1 = clearArrays s;
          count = (sectorCount s1 + 1) * (stackCount s1 + 1)
      in case newFloat32Array A (3 * count) of Inl e \<Rightarrow> Inl e | Inr vs \<Rightarrow>
         (case newFloat32Array A (3 * count) of Inl e \<Rightarrow> Inl e | Inr ns \<Rightarrow>
         (case newFloat32Array A (2 * count) of Inl e \<Rightarrow> Inl e | Inr ts \<Rightarrow>
         (case newUint16Array (6 * sectorCount s1 * (stackCount s1 - 1)) of
            Inl e \<Rightarrow> Inl e
          | Inr ix \<Rightarrow> Inr (s1\<lparr>vertices := vs, normals := ns, texCoords := ts,
                              indices := ix\<rparr>)))))"

definition resizeArraysFlat ::
  "('d, 'f) arith \<Rightarrow> ('d, 'f) sphere \<Rightarrow> js_error + ('d, 'f) sphere" where
  "resizeArraysFlat A s =
     (let s1 = clearArrays s;
          count = 6 * sectorCount s1 + 4 * sectorCount s1 * (stackCount s1 - 2)
      in case newFloat32Array A (3 * count) of Inl e \<Rightarrow> Inl e | Inr vs \<Rightarrow>
         (case newFloat32Array A (3 * count) of Inl e \<Rightarrow> Inl e | Inr ns \<Rightarrow>
         (case newFloat32Array A (2 * count) of Inl e \<Rightarrow> Inl e | Inr ts \<Rightarrow>
         (case newUint16Array (6 * sectorCount s1 * (stackCount s1 - 1)) of
            Inl e \<Rightarrow> Inl e
          | Inr ix \<Rightarrow> Inr (s1\<lparr>vertices := vs, normals := ns, texCoords := ts,
                              indices := ix\<rparr>)))))"

subsection \<open>Element stores\<close>

definition addVertex ::
  "('d, 'f) arith \<Rightarrow> nat \<Rightarrow> 'd \<Rightarrow> 'd \<Rightarrow> 'd \<Rightarrow> ('d, 'f) sphere \<Rightarrow> ('d, 'f) sphere" where
  "addVertex A index x y z s =
     s\<lparr>vertices := (vertices s)[index := toF32 A x, index + 1 := toF32 A y,
                                  index + 2 := toF32 A z]\<rparr>"

definition addNormal ::
  "('d, 'f) arith \<Rightarrow> nat \<Rightarrow> 'd \<Rightarrow> 'd \<Rightarrow> 'd \<Rightarrow> ('d, 'f) sphere \<Rightarrow> ('d, 'f) sphere" where
  "addNormal A index x y z s =
     s\<lparr>normals := (normals s)[index := toF32 A x, index + 1 := toF32 A y,
                                index + 2 := toF32 A z]\<rparr>"

definition addTexCoord ::
  "('d, 'f) arith \<Rightarrow> nat \<Rightarrow> 'd \<Rightarrow> 'd \<Rightarrow> ('d, 'f) sphere \<Rightarrow> ('d, 'f) sphere" where
  "addTexCoord A index sc tc s =
     s\<lparr>texCoords := (texCoords s)[index := toF32 A sc, index + 1 := toF32 A tc]\<rparr>"

text \<open>A store into the \<open>Uint16Array\<close> keeps the value modulo \<open>2^16\<close>.\<close>

definition addIndices ::
  "nat \<Rightarrow> int \<Rightarrow> int \<Rightarrow> int \<Rightarrow> ('d, 'f) sphere \<Rightarrow> ('d, 'f) sphere" where
  "addIndices index i1 i2 i3 s =
     s\<lparr>indices := (indices s)[index := word_of_int i1, index + 1 := word_of_int i2,
                                index + 2 := word_of_int i3]\<rparr>"

subsection \<open>Interleaving and upload\<close>

text \<open>
  The loop \<open>for(i=0, j=0, k=0; i < vertices.length; i+=3, j+=2, k+=8)\<close>. The three source
  arrays are not written by the loop, only \<open>interleavedVertices\<close> (here \<open>out\<close>) is.
\<close>

function interleaveLoop ::
  "('d, 'f) arith \<Rightarrow> 'f list \<Rightarrow> 'f list \<Rightarrow> 'f list \<Rightarrow> nat \<Rightarrow> nat \<Rightarrow> nat \<Rightarrow> 'f list \<Rightarrow> 'f list"
where
  "interleaveLoop A vs ns ts i j k out =
     (if i < length vs then
        interleaveLoop A vs ns ts (i + 3) (j + 2) (k + 8)
          (out[k := toF32 A (getF A vs i),
               k + 1 := toF32 A (getF A vs (i + 1)),
               k + 2 := toF32 A (getF A vs (i + 2)),
               k + 3 := toF32 A (getF A ns i),
               k + 4 := toF32 A (getF A ns (i + 1)),
               k + 5 := toF32 A (getF A ns (i + 2)),
               k + 6 := toF32 A (getF A ts j),
               k + 7 := toF32 A (getF A ts (j + 1))])
      else out)"
  by pat_completeness auto
termination
  by (relation "measure (\<lambda>(A, vs, ns, ts, i, j, k, out). length vs - i)") auto

declare interleaveLoop.simps [simp del]

text \<open>
  \<open>new Float32Array(vertexCount * 8)\<close> truncates its argument; it is never negative, so
  this allocation cannot raise.
\<close>

definition buildInterleavedVertices ::
  "('d, 'f) arith \<Rightarrow> ('d, 'f) sphere \<Rightarrow> ('d, 'f) sphere" where
  "buildInterleavedVertices A s =
     (let vertexCount = getVertexCount s;
          out = zeros A (nat \<lfloor>vertexCount * 8\<rfloor>)
      in s\<lparr>interleavedVertices :=
             interleaveLoop A (vertices s) (normals s) (texCoords s) 0 0 0 out\<rparr>)"

definition upload :: "('d, 'f) sphere \<Rightarrow> 'f glcall list" where
  "upload s =
     [BindBuffer ARRAY_BUFFER (Some (vboVertex s)),
      BufferDataFloat ARRAY_BUFFER (interleavedVertices s),
      BindBuffer ARRAY_BUFFER None,
      BindBuffer ELEMENT_ARRAY_BUFFER (Some (vboIndex s)),
      BufferDataIndex ELEMENT_ARRAY_BUFFER (indices s),
      BindBuffer ELEMENT_ARRAY_BUFFER None]"

definition buildVbos :: "('d, 'f) sphere \<Rightarrow> ('d, 'f) sphere" where
  "buildVbos s = s\<lparr>gl := (gl s)\<lparr>calls := calls (gl s) @ upload s\<rparr>\<rparr>"

text \<open>The index lists of \<open>for(i=0; i <= n; ++i)\<close> and \<open>for(i=0; i < n; ++i)\<close>.\<close>

definition upToIncl :: "int \<Rightarrow> nat list" where
  "upToIncl n = [0..<nat (n + 1)]"

definition upToExcl :: "int \<Rightarrow> nat list" where
  "upToExcl n = [0..<nat n]"

section \<open>Smooth shading\<close>

text \<open>The body of the inner vertex loop; the loop state is \<open>(this, ii, jj)\<close>.\<close>

definition smoothVertexBody ::
  "('d, 'f) arith \<Rightarrow> 'd \<Rightarrow> 'd \<Rightarrow> 'd \<Rightarrow> 'd \<Rightarrow> nat \<Rightarrow> nat \<Rightarrow>
   ('d, 'f) sphere \<times> nat \<times> nat \<Rightarrow> ('d, 'f) sphere \<times> nat \<times> nat" where
  "smoothVertexBody A lengthInv sectorStep xy z i j = (\<lambda>(s, ii, jj).
     (let sectorAngle = fmul A (num A (of_nat j)) sectorStep;
          x = fmul A xy (fcos A sectorAngle);
          y = fmul A xy (fsin A sectorAngle);
          s1 = addVertex A ii x y z s;
          nx = fmul A x lengthInv;
          ny = fmul A y lengthInv;
          nz = fmul A z lengthInv;
          s2 = addNormal A ii nx ny nz s1;
          sc = fdiv A (num A (of_nat j)) (num A (of_int (sectorCount s2)));
          tc = fdiv A (num A (of_nat i)) (num A (of_int (stackCount s2)));
          s3 = addTexCoord A jj sc tc s2
      in (s3, ii + 3, jj + 2)))"

definition smoothVertexRow ::
  "('d, 'f) arith \<Rightarrow> 'd \<Rightarrow> 'd \<Rightarrow> 'd \<Rightarrow> nat \<Rightarrow>
   ('d, 'f) sphere \<times> nat \<times> nat \<Rightarrow> ('d, 'f) sphere \<times> nat \<times> nat" where
  "smoothVertexRow A lengthInv sectorStep stackStep i = (\<lambda>(s, ii, jj).
     (let stackAngle = fsub A (fdiv A (mathPI A) (num A 2))
                              (fmul A (num A (of_nat i)) stackStep);
          xy = fmul A (radius s) (fcos A stackAngle);
          z = fmul A (radius s) (fsin A stackAngle)
      in fold (smoothVertexBody A lengthInv sectorStep xy z i)
              (upToIncl (sectorCount s)) (s, ii, jj)))"

text \<open>
  The body of the inner index loop; the loop state is \<open>(this, kk, k1, k2)\<close>, and the loop
  header increments \<open>k1\<close> and \<open>k2\<close> with \<open>j\<close>.
\<close>

definition smoothIndexBody ::
  "nat \<Rightarrow> nat \<Rightarrow> ('d, 'f) sphere \<times> nat \<times> int \<times> int \<Rightarrow>
   ('d, 'f) sphere \<times> nat \<times> int \<times> int" where
  "smoothIndexBody i j = (\<lambda>(s, kk, k1, k2).
     (let (s1, kk1) = (if int i \<noteq> 0
                       then (addIndices kk k1 k2 (k1 + 1) s, kk + 3) else (s, kk));
          (s2, kk2) = (if int i \<noteq> stackCount s1 - 1
                       then (addIndices kk1 (k1 + 1) k2 (k2 + 1) s1, kk1 + 3)
                       else (s1, kk1))
      in (s2, kk2, k1 + 1, k2 + 1)))"

definition smoothIndexRow ::
  "nat \<Rightarrow> ('d, 'f) sphere \<times> nat \<Rightarrow> ('d, 'f) sphere \<times> nat" where
  "smoothIndexRow i = (\<lambda>(s, kk).
     (let k1 = int i * (sectorCount s + 1);
          k2 = k1 + sectorCount s + 1;
          (s', kk', k1', k2') =
             fold (smoothIndexBody i) (upToExcl (sectorCount s)) (s, kk, k1, k2)
      in (s', kk')))"

definition buildVerticesSmooth ::
  "('d, 'f) arith \<Rightarrow> ('d, 'f) sphere \<Rightarrow> js_error + ('d, 'f) sphere" where
  "buildVerticesSmooth A s0 =
     (case resizeArraysSmooth A s0 of
        Inl e \<Rightarrow> Inl e
      | Inr s \<Rightarrow>
         (let lengthInv = fdiv A (num A 1) (radius s);
              sectorStep = fdiv A (fmul A (num A 2) (mathPI A))
                                  (num A (of_int (sectorCount s)));
              stackStep = fdiv A (mathPI A) (num A (of_int (stackCount s)));
              (s1, ii, jj) = fold (smoothVertexRow A lengthInv sectorStep stackStep)
                                  (upToIncl (stackCount s)) (s, 0, 0);
              (s2, kk) = fold smoothIndexRow (upToExcl (stackCount s1)) (s1, 0)
          in Inr (buildVbos (buildInterleavedVertices A s2))))"

section \<open>Flat shading\<close>

text \<open>An entry of \<open>tmpVertices\<close>: the object \<open>{x, y, z, s, t}\<close>.\<close>

datatype 'd vertex = Vertex (v_x: 'd) (v_y: 'd) (v_z: 'd) (v_s: 'd) (v_t: 'd)

definition flatVertexBody ::
  "('d, 'f) arith \<Rightarrow> ('d, 'f) sphere \<Rightarrow> 'd \<Rightarrow> 'd \<Rightarrow> 'd \<Rightarrow> nat \<Rightarrow> nat \<Rightarrow>
   'd vertex list \<Rightarrow> 'd vertex list" where
  "flatVertexBody A s sectorStep xy z i j tmpVertices =
     (let sectorAngle = fmul A (num A (of_nat j)) sectorStep;
          vertex = Vertex (fmul A xy (fcos A sectorAngle))
                          (fmul A xy (fsin A sectorAngle))
                          z
                          (fdiv A (num A (of_nat j)) (num A (of_int (sectorCount s))))
                          (fdiv A (num A (of_nat i)) (num A (of_int (stackCount s))))
      in tmpVertices @ [vertex])"

definition flatVertexRow ::
  "('d, 'f) arith \<Rightarrow> ('d, 'f) sphere \<Rightarrow> 'd \<Rightarrow> 'd \<Rightarrow> nat \<Rightarrow>
   'd vertex list \<Rightarrow> 'd vertex list" where
  "flatVertexRow A s sectorStep stackStep i tmpVertices =
     (let stackAngle = fsub A (fdiv A (mathPI A) (num A 2))
                              (fmul A (num A (of_nat i)) stackStep);
          xy = fmul A (radius s) (fcos A stackAngle);
          z = fmul A (radius s) (fsin A stackAngle)
      in fold (flatVertexBody A s sectorStep xy z i) (upToIncl (sectorCount s)) tmpVertices)"

text \<open>
  \<open>tmpVertices[k]\<close> is \<open>undefined\<close> outside the array, and reading a field of
  \<open>undefined\<close> raises a TypeError.
\<close>

definition tmpGet :: "'d vertex list \<Rightarrow> int \<Rightarrow> 'd vertex option" where
  "tmpGet tmpVertices k =
     (if 0 \<le> k \<and> k < int (length tmpVertices) then Some (tmpVertices ! nat k) else None)"

definition computeFaceNormal ::
  "('d, 'f) arith \<Rightarrow> 'd \<Rightarrow> 'd \<Rightarrow> 'd \<Rightarrow> 'd \<Rightarrow> 'd \<Rightarrow> 'd \<Rightarrow> 'd \<Rightarrow> 'd \<Rightarrow> 'd \<Rightarrow> 'f list" where
  "computeFaceNormal A x1 y1 z1 x2 y2 z2 x3 y3 z3 =
     (let normal = zeros A 3;
          ex1 = fsub A x2 x1;
          ey1 = fsub A y2 y1;
          ez1 = fsub A z2 z1;
          ex2 = fsub A x3 x1;
          ey2 = fsub A y3 y1;
          ez2 = fsub A z3 z1;
          nx = fsub A (fmul A ey1 ez2) (fmul A ez1 ey2);
          ny = fsub A (fmul A ez1 ex2) (fmul A ex1 ez2);
          nz = fsub A (fmul A ex1 ey2) (fmul A ey1 ex2);
          len = fsqrt A (fadd A (fadd A (fmul A nx nx) (fmul A ny ny)) (fmul A nz nz))
      in if fgt A len (num A (1 / 1000000))
         then normal[0 := toF32 A (fdiv A nx len),
                     1 := toF32 A (fdiv A ny len),
                     2 := toF32 A (fdiv A nz len)]
         else normal)"

text \<open>
  The first-stack and last-stack branches run the same statements on three vertices
  (\<open>v1, v2, v4\<close> and \<open>v1, v2, v3\<close>): \<open>putTriangle\<close>. The other stacks store the four
  corners of the quad, the normal of \<open>(v1, v2, v3)\<close> on the first three of them only, and
  two triangles: \<open>putQuad\<close>. The state is \<open>(this, ii, jj, kk, index)\<close>.
\<close>

definition putTriangle ::
  "('d, 'f) arith \<Rightarrow> 'd vertex \<Rightarrow> 'd vertex \<Rightarrow> 'd vertex \<Rightarrow>
   ('d, 'f) sphere \<times> nat \<times> nat \<times> nat \<times> int \<Rightarrow> ('d, 'f) sphere \<times> nat \<times> nat \<times> nat \<times> int" where
  "putTriangle A a b c = (\<lambda>(s, ii, jj, kk, index).
     (let s1 = addVertex A ii (v_x a) (v_y a) (v_z a) s;
          s2 = addVertex A (ii + 3) (v_x b) (v_y b) (v_z b) s1;
          s3 = addVertex A (ii + 6) (v_x c) (v_y c) (v_z c) s2;
          s4 = addTexCoord A jj (v_s a) (v_t a) s3;
          s5 = addTexCoord A (jj + 2) (v_s b) (v_t b) s4;
          s6 = addTexCoord A (jj + 4) (v_s c) (v_t c) s5;
          n = computeFaceNormal A (v_x a) (v_y a) (v_z a) (v_x b) (v_y b) (v_z b)
                                  (v_x c) (v_y c) (v_z c);
          s7 = addNormal A ii (getF A n 0) (getF A n 1) (getF A n 2) s6;
          s8 = addNormal A (ii + 3) (getF A n 0) (getF A n 1) (getF A n 2) s7;
          s9 = addNormal A (ii + 6) (getF A n 0) (getF A n 1) (getF A n 2) s8;
          s10 = addIndices kk index (index + 1) (index + 2) s9
      in (s10, ii + 9, jj + 6, kk + 3, index + 3)))"

definition putQuad ::
  "('d, 'f) arith \<Rightarrow> 'd vertex \<Rightarrow> 'd vertex \<Rightarrow> 'd vertex \<Rightarrow> 'd vertex \<Rightarrow>
   ('d, 'f) sphere \<times> nat \<times> nat \<times> nat \<times> int \<Rightarrow> ('d, 'f) sphere \<times> nat \<times> nat \<times> nat \<times> int" where
  "putQuad A a b c d = (\<lambda>(s, ii, jj, kk, index).
     (let s1 = addVertex A ii (v_x a) (v_y a) (v_z a) s;
          s2 = addVertex A (ii + 3) (v_x b) (v_y b) (v_z b) s1;
          s3 = addVertex A (ii + 6) (v_x c) (v_y c) (v_z c) s2;
          s4 = addVertex A (ii + 9) (v_x d) (v_y d) (v_z d) s3;
          s5 = addTexCoord A jj (v_s a) (v_t a) s4;
          s6 = addTexCoord A (jj + 2) (v_s b) (v_t b) s5;
          s7 = addTexCoord A (jj + 4) (v_s c) (v_t c) s6;
          s8 = addTexCoord A (jj + 6) (v_s d) (v_t d) s7;
          n = computeFaceNormal A (v_x a) (v_y a) (v_z a) (v_x b) (v_y b) (v_z b)
                                  (v_x c) (v_y c) (v_z c);
          s9 = addNormal A ii (getF A n 0) (getF A n 1) (getF A n 2) s8;
          s10 = addNormal A (ii + 3) (getF A n 0) (getF A n 1) (getF A n 2) s9;
          s11 = addNormal A (ii + 6) (getF A n 0) (getF A n 1) (getF A n 2) s10;
          s12 = addIndices kk index (index + 1) (index + 2) s11;
          s13 = addIndices (kk + 3) (index + 2) (index + 1) (index + 3) s12
      in (s13, ii + 12, jj + 8, kk + 6, index + 4)))"

text \<open>
  The body of the inner loop; the loop state is \<open>(this, ii, jj, kk, index)\<close> with \<open>vi1\<close>
  and \<open>vi2\<close>, which the loop header increments with \<open>j\<close>.
\<close>

definition flatBody ::
  "('d, 'f) arith \<Rightarrow> 'd vertex list \<Rightarrow> nat \<Rightarrow> nat \<Rightarrow>
   (('d, 'f) sphere \<times> nat \<times> nat \<times> nat \<times> int) \<times> int \<times> int \<Rightarrow>
   js_error + (('d, 'f) sphere \<times> nat \<times> nat \<times> nat \<times> int) \<times> int \<times> int" where
  "flatBody A tmpVertices i j = (\<lambda>(st, vi1, vi2).
     (let v1 = tmpGet tmpVertices vi1;
          v2 = tmpGet tmpVertices vi2;
          v3 = tmpGet tmpVertices (vi1 + 1);
          v4 = tmpGet tmpVertices (vi2 + 1)
      in if int i = 0 then
           (case (v1, v2, v4) of
              (Some a, Some b, Some c) \<Rightarrow> Inr (putTriangle A a b c st, vi1 + 1, vi2 + 1)
            | _ \<Rightarrow> Inl TypeError)
         else if int i = stackCount (fst st) - 1 then
           (case (v1, v2, v3) of
              (Some a, Some b, Some c) \<Rightarrow> Inr (putTriangle A a b c st, vi1 + 1, vi2 + 1)
            | _ \<Rightarrow> Inl TypeError)
         else
           (case (v1, v2, v3, v4) of
              (Some a, Some b, Some c, Some d) \<Rightarrow> Inr (putQuad A a b c d st, vi1 + 1, vi2 + 1)
            | _ \<Rightarrow> Inl TypeError)))"

text \<open>A loop whose body can raise: the first error ends it.\<close>

fun foldE :: "('a \<Rightarrow> 's \<Rightarrow> js_error + 's) \<Rightarrow> 'a list \<Rightarrow> 's \<Rightarrow> js_error + 's" where
  "foldE f [] st = Inr st"
| "foldE f (x # xs) st = (case f x st of Inl e \<Rightarrow> Inl e | Inr st' \<Rightarrow> foldE f xs st')"

definition flatRow ::
  "('d, 'f) arith \<Rightarrow> 'd vertex list \<Rightarrow> nat \<Rightarrow>
   ('d, 'f) sphere \<times> nat \<times> nat \<times> nat \<times> int \<Rightarrow>
   js_error + ('d, 'f) sphere \<times> nat \<times> nat \<times> nat \<times> int" where
  "flatRow A tmpVertices i st =
     (let vi1 = int i * (sectorCount (fst st) + 1);
          vi2 = (int i + 1) * (sectorCount (fst st) + 1)
      in case foldE (flatBody A tmpVertices i) (upToExcl (sectorCount (fst st))) (st, vi1, vi2) of
           Inl e \<Rightarrow> Inl e
         | Inr (st', vi1', vi2') \<Rightarrow> Inr st')"

definition buildVerticesFlat ::
  "('d, 'f) arith \<Rightarrow> ('d, 'f) sphere \<Rightarrow> js_error + ('d, 'f) sphere" where
  "buildVerticesFlat A s0 =
     (let sectorStep = fdiv A (fmul A (num A 2) (mathPI A))
                              (num A (of_int (sectorCount s0)));
          stackStep = fdiv A (mathPI A) (num A (of_int (stackCount s0)));
          tmpVertices = fold (flatVertexRow A s0 sectorStep stackStep)
                             (upToIncl (stackCount s0)) []
      in case resizeArraysFlat A s0 of
           Inl e \<Rightarrow> Inl e
         | Inr s \<Rightarrow>
            (case foldE (flatRow A tmpVertices) (upToExcl (stackCount s)) (s, 0, 0, 0, 0) of
               Inl e \<Rightarrow> Inl e
             | Inr (s1, ii, jj, kk, index) \<Rightarrow>
                 Inr (buildVbos (buildInterleavedVertices A s1))))"

section \<open>Parameters\<close>

definition set_sphere ::
  "('d, 'f) arith \<Rightarrow> 'd \<Rightarrow> int \<Rightarrow> int \<Rightarrow> bool \<Rightarrow> ('d, 'f) sphere \<Rightarrow>
   js_error + ('d, 'f) sphere" where
  "set_sphere A r se st sm s =
     (let s1 = s\<lparr>radius := r\<rparr>;
          s2 = s1\<lparr>sectorCount := se\<rparr>;
          s3 = (if se < 3 then s2\<lparr>sectorCount := 3\<rparr> else s2);
          s4 = s3\<lparr>stackCount := st\<rparr>;
          s5 = (if st < 2 then s4\<lparr>stackCount := 2\<rparr> else s4);
          s6 = s5\<lparr>smooth := sm\<rparr>
      in if sm then buildVerticesSmooth A s6 else buildVerticesFlat A s6)"

definition setRadius ::
  "('d, 'f) arith \<Rightarrow> 'd \<Rightarrow> ('d, 'f) sphere \<Rightarrow> js_error + ('d, 'f) sphere" where
  "setRadius A r s =
     (if fne A (radius s) r
      then set_sphere A r (sectorCount s) (stackCount s) (smooth s) s
      else Inr s)"

definition setSectorCount ::
  "('d, 'f) arith \<Rightarrow> int \<Rightarrow> ('d, 'f) sphere \<Rightarrow> js_error + ('d, 'f) sphere" where
  "setSectorCount A x s =
     (if sectorCount s \<noteq> x
      then set_sphere A (radius s) x (stackCount s) (smooth s) s
      else Inr s)"

definition setStackCount ::
  "('d, 'f) arith \<Rightarrow> int \<Rightarrow> ('d, 'f) sphere \<Rightarrow> js_error + ('d, 'f) sphere" where
  "setStackCount A x s =
     (if stackCount s \<noteq> x
      then set_sphere A (radius s) (sectorCount s) x (smooth s) s
      else Inr s)"

definition setSmooth ::
  "('d, 'f) arith \<Rightarrow> bool \<Rightarrow> ('d, 'f) sphere \<Rightarrow> js_error + ('d, 'f) sphere" where
  "setSmooth A x s =
     (if smooth s \<noteq> x
      then (let s1 = s\<lparr>smooth := x\<rparr>
            in if smooth s1 then buildVerticesSmooth A s1 else buildVerticesFlat A s1)
      else Inr s)"

text \<open>
  The constructor, called with a rendering context and all four parameters (the model
  has no sphere without a context: \<open>buildVbos\<close> needs one).
\<close>

definition Sphere ::
  "('d, 'f) arith \<Rightarrow> 'f glctx \<Rightarrow> 'd \<Rightarrow> int \<Rightarrow> int \<Rightarrow> bool \<Rightarrow> js_error + ('d, 'f) sphere" where
  "Sphere A g r sectors stacks sm =
     (let (vbo1, g1) = createBuffer g;
          (vbo2, g2) = createBuffer g1;
          this = \<lparr> gl = g2, radius = num A 1, sectorCount = 36, stackCount = 18,
                   smooth = True, vertices = [], normals = [], texCoords = [],
                   indices = [], interleavedVertices = [], stride = 32,
                   vboVertex = vbo1, vboIndex = vbo2 \<rparr>
      in set_sphere A r sectors stacks sm this)"

section \<open>Shape parameters that are not integers\<close>

text \<open>
  \<open>set\<close> accepts any number for \<open>se\<close> and \<open>st\<close>, and an engine allocates typed arrays up to
  some length only. The functions of this section are those of the sections above with
  \<open>sectorCount\<close> and \<open>stackCount\<close> rational numbers (the finite doubles are rationals; NaN
  and the infinities are left out, and the arithmetic on counts is exact) and with
  \<open>maxLength\<close>, the greatest length of a typed array that the engine allocates (at most
  \<open>2^53 - 1\<close> by the language's \<open>ToIndex\<close>). Their names end in \<open>N\<close>.

  \<open>toInteger\<close> is the truncation that \<open>new Float32Array(n)\<close> applies to its length and a
  store into a \<open>Uint16Array\<close> to the value.
\<close>

definition toInteger :: "rat \<Rightarrow> int" where
  "toInteger q = (if q < 0 then \<lceil>q\<rceil> else \<lfloor>q\<rfloor>)"

definition newFloat32ArrayN :: "('d, 'f) arith \<Rightarrow> int \<Rightarrow> rat \<Rightarrow> js_error + 'f list" where
  "newFloat32ArrayN A maxLength n =
     (let len = toInteger n
      in if len < 0 \<or> maxLength < len then Inl RangeError else Inr (zeros A (nat len)))"

definition newUint16ArrayN :: "int \<Rightarrow> rat \<Rightarrow> js_error + 16 word list" where
  "newUint16ArrayN maxLength n =
     (let len = toInteger n
      in if len < 0 \<or> maxLength < len then Inl RangeError else Inr (replicate (nat len) 0))"

record ('d, 'f) sphereN =
  glN :: "'f glctx"
  radiusN :: 'd
  sectorCountN :: rat
  stackCountN :: rat
  smoothN :: bool
  verticesN :: "'f list"
  normalsN :: "'f list"
  texCoordsN :: "'f list"
  indicesN :: "16 word list"
  interleavedVerticesN :: "'f list"
  strideN :: nat
  vboVertexN :: nat
  vboIndexN :: nat

definition getVertexCountN :: "('d, 'f) sphereN \<Rightarrow> rat" where
  "getVertexCountN s = of_nat (length (verticesN s)) / 3"

definition clearArraysN :: "('d, 'f) sphereN \<Rightarrow> ('d, 'f) sphereN" where
  "clearArraysN s = s\<lparr>verticesN := [], normalsN := [], texCoordsN := [], indicesN := [],
                      interleavedVerticesN := []\<rparr>"

definition resizeArraysSmoothN ::
  "('d, 'f) arith \<Rightarrow> int \<Rightarrow> ('d, 'f) sphereN \<Rightarrow> js_error + ('d, 'f) sphereN" where
  "resizeArraysSmoothN A maxLength s =
     (let s1 = clearArraysN s;
          count = (sectorCountN s1 + 1) * (stackCountN s1 + 1)
      in case newFloat32ArrayN A maxLength (3 * count) of Inl e \<Rightarrow> Inl e | Inr vs \<Rightarrow>
         (case newFloat32ArrayN A maxLength (3 * count) of Inl e \<Rightarrow> Inl e | Inr ns \<Rightarrow>
         (case newFloat32ArrayN A maxLength (2 * count) of Inl e \<Rightarrow> Inl e | Inr ts \<Rightarrow>
         (case newUint16ArrayN maxLength (6 * sectorCountN s1 * (stackCountN s1 - 1)) of
            Inl e \<Rightarrow> Inl e
          | Inr ix \<Rightarrow> Inr (s1\<lparr>verticesN := vs, normalsN := ns, texCoordsN := ts,
                              indicesN := ix\<rparr>)))))"

definition resizeArraysFlatN ::
  "('d, 'f) arith \<Rightarrow> int \<Rightarrow> ('d, 'f) sphereN \<Rightarrow> js_error + ('d, 'f) sphereN" where
  "resizeArraysFlatN A maxLength s =
     (let s1 = clearArraysN s;
          count = 6 * sectorCountN s1 + 4 * sectorCountN s1 * (stackCountN s1 - 2)
      in case newFloat32ArrayN A maxLength (3 * count) of Inl e \<Rightarrow> Inl e | Inr vs \<Rightarrow>
         (case newFloat32ArrayN A maxLength (3 * count) of Inl e \<Rightarrow> Inl e | Inr ns \<Rightarrow>
         (case newFloat32ArrayN A maxLength (2 * count) of Inl e \<Rightarrow> Inl e | Inr ts \<Rightarrow>
         (case newUint16ArrayN maxLength (6 * sectorCountN s1 * (stackCountN s1 - 1)) of
            Inl e \<Rightarrow> Inl e
          | Inr ix \<Rightarrow> Inr (s1\<lparr>verticesN := vs, normalsN := ns, texCoordsN := ts,
                              indicesN := ix\<rparr>)))))"

definition addVertexN ::
  "('d, 'f) arith \<Rightarrow> nat \<Rightarrow> 'd \<Rightarrow> 'd \<Rightarrow> 'd \<Rightarrow> ('d, 'f) sphereN \<Rightarrow> ('d, 'f) sphereN" where
  "addVertexN A index x y z s =
     s\<lparr>verticesN := (verticesN s)[index := toF32 A x, index + 1 := toF32 A y,
                                    index + 2 := toF32 A z]\<rparr>"

definition addNormalN ::
  "('d, 'f) arith \<Rightarrow> nat \<Rightarrow> 'd \<Rightarrow> 'd \<Rightarrow> 'd \<Rightarrow> ('d, 'f) sphereN \<Rightarrow> ('d, 'f) sphereN" where
  "addNormalN A index x y z s =
     s\<lparr>normalsN := (normalsN s)[index := toF32 A x, index + 1 := toF32 A y,
                                  index + 2 := toF32 A z]\<rparr>"

definition addTexCoordN ::
  "('d, 'f) arith \<Rightarrow> nat \<Rightarrow> 'd \<Rightarrow> 'd \<Rightarrow> ('d, 'f) sphereN \<Rightarrow> ('d, 'f) sphereN" where
  "addTexCoordN A index sc tc s =
     s\<lparr>texCoordsN := (texCoordsN s)[index := toF32 A sc, index + 1 := toF32 A tc]\<rparr>"

text \<open>
  A store into the \<open>Uint16Array\<close> truncates the number and keeps it modulo \<open>2^16\<close>.
\<close>

definition addIndicesN ::
  "nat \<Rightarrow> rat \<Rightarrow> rat \<Rightarrow> rat \<Rightarrow> ('d, 'f) sphereN \<Rightarrow> ('d, 'f) sphereN" where
  "addIndicesN index i1 i2 i3 s =
     s\<lparr>indicesN := (indicesN s)[index := word_of_int (toInteger i1),
                                  index + 1 := word_of_int (toInteger i2),
                                  index + 2 := word_of_int (toInteger i3)]\<rparr>"

text \<open>\<open>new Float32Array(vertexCount * 8)\<close> can now raise: the length may exceed \<open>maxLength\<close>.\<close>

definition buildInterleavedVerticesN ::
  "('d, 'f) arith \<Rightarrow> int \<Rightarrow> ('d, 'f) sphereN \<Rightarrow> js_error + ('d, 'f) sphereN" where
  "buildInterleavedVerticesN A maxLength s =
     (let vertexCount = getVertexCountN s
      in case newFloat32ArrayN A maxLength (vertexCount * 8) of
           Inl e \<Rightarrow> Inl e
         | Inr out \<Rightarrow>
            Inr (s\<lparr>interleavedVerticesN :=
                     interleaveLoop A (verticesN s) (normalsN s) (texCoordsN s) 0 0 0 out\<rparr>))"

definition uploadN :: "('d, 'f) sphereN \<Rightarrow> 'f glcall list" where
  "uploadN s =
     [BindBuffer ARRAY_BUFFER (Some (vboVertexN s)),
      BufferDataFloat ARRAY_BUFFER (interleavedVerticesN s),
      BindBuffer ARRAY_BUFFER None,
      BindBuffer ELEMENT_ARRAY_BUFFER (Some (vboIndexN s)),
      BufferDataIndex ELEMENT_ARRAY_BUFFER (indicesN s),
      BindBuffer ELEMENT_ARRAY_BUFFER None]"

definition buildVbosN :: "('d, 'f) sphereN \<Rightarrow> ('d, 'f) sphereN" where
  "buildVbosN s = s\<lparr>glN := (glN s)\<lparr>calls := calls (glN s) @ uploadN s\<rparr>\<rparr>"

text \<open>
  The index lists of \<open>for(i=0; i <= n; ++i)\<close> and \<open>for(i=0; i < n; ++i)\<close> for a number \<open>n\<close>:
  \<open>i\<close> runs up to the floor of \<open>n\<close>, and up to the integer below the ceiling of \<open>n\<close>.
\<close>

definition upToInclN :: "rat \<Rightarrow> nat list" where
  "upToInclN n = [0..<nat (\<lfloor>n\<rfloor> + 1)]"

definition upToExclN :: "rat \<Rightarrow> nat list" where
  "upToExclN n = [0..<nat \<lceil>n\<rceil>]"

definition smoothVertexBodyN ::
  "('d, 'f) arith \<Rightarrow> 'd \<Rightarrow> 'd \<Rightarrow> 'd \<Rightarrow> 'd \<Rightarrow> nat \<Rightarrow> nat \<Rightarrow>
   ('d, 'f) sphereN \<times> nat \<times> nat \<Rightarrow> ('d, 'f) sphereN \<times> nat \<times> nat" where
  "smoothVertexBodyN A lengthInv sectorStep xy z i j = (\<lambda>(s, ii, jj).
     (let sectorAngle = fmul A (num A (of_nat j)) sectorStep;
          x = fmul A xy (fcos A sectorAngle);
          y = fmul A xy (fsin A sectorAngle);
          s1 = addVertexN A ii x y z s;
          nx = fmul A x lengthInv;
          ny = fmul A y lengthInv;
          nz = fmul A z lengthInv;
          s2 = addNormalN A ii nx ny nz s1;
          sc = fdiv A (num A (of_nat j)) (num A (sectorCountN s2));
          tc = fdiv A (num A (of_nat i)) (num A (stackCountN s2));
          s3 = addTexCoordN A jj sc tc s2
      in (s3, ii + 3, jj + 2)))"

definition smoothVertexRowN ::
  "('d, 'f) arith \<Rightarrow> 'd \<Rightarrow> 'd \<Rightarrow> 'd \<Rightarrow> nat \<Rightarrow>
   ('d, 'f) sphereN \<times> nat \<times> nat \<Rightarrow> ('d, 'f) sphereN \<times> nat \<times> nat" where
  "smoothVertexRowN A lengthInv sectorStep stackStep i = (\<lambda>(s, ii, jj).
     (let stackAngle = fsub A (fdiv A (mathPI A) (num A 2))
                              (fmul A (num A (of_nat i)) stackStep);
          xy = fmul A (radiusN s) (fcos A stackAngle);
          z = fmul A (radiusN s) (fsin A stackAngle)
      in fold (smoothVertexBodyN A lengthInv sectorStep xy z i)
              (upToInclN (sectorCountN s)) (s, ii, jj)))"

definition smoothIndexBodyN ::
  "nat \<Rightarrow> nat \<Rightarrow> ('d, 'f) sphereN \<times> nat \<times> rat \<times> rat \<Rightarrow>
   ('d, 'f) sphereN \<times> nat \<times> rat \<times> rat" where
  "smoothIndexBodyN i j = (\<lambda>(s, kk, k1, k2).
     (let (s1, kk1) = (if int i \<noteq> 0
                       then (addIndicesN kk k1 k2 (k1 + 1) s, kk + 3) else (s, kk));
          (s2, kk2) = (if of_nat i \<noteq> stackCountN s1 - 1
                       then (addIndicesN kk1 (k1 + 1) k2 (k2 + 1) s1, kk1 + 3)
                       else (s1, kk1))
      in (s2, kk2, k1 + 1, k2 + 1)))"

definition smoothIndexRowN ::
  "nat \<Rightarrow> ('d, 'f) sphereN \<times> nat \<Rightarrow> ('d, 'f) sphereN \<times> nat" where
  "smoothIndexRowN i = (\<lambda>(s, kk).
     (let k1 = of_nat i * (sectorCountN s + 1);
          k2 = k1 + sectorCountN s + 1;
          (s', kk', k1', k2') =
             fold (smoothIndexBodyN i) (upToExclN (sectorCountN s)) (s, kk, k1, k2)
      in (s', kk')))"

definition buildVerticesSmoothN ::
  "('d, 'f) arith \<Rightarrow> int \<Rightarrow> ('d, 'f) sphereN \<Rightarrow> js_error + ('d, 'f) sphereN" where
  "buildVerticesSmoothN A maxLength s0 =
     (case resizeArraysSmoothN A maxLength s0 of
        Inl e \<Rightarrow> Inl e
      | Inr s \<Rightarrow>
         (let lengthInv = fdiv A (num A 1) (radiusN s);
              sectorStep = fdiv A (fmul A (num A 2) (mathPI A)) (num A (sectorCountN s));
              stackStep = fdiv A (mathPI A) (num A (stackCountN s));
              (s1, ii, jj) = fold (smoothVertexRowN A lengthInv sectorStep stackStep)
                                  (upToInclN (stackCountN s)) (s, 0, 0);
              (s2, kk) = fold smoothIndexRowN (upToExclN (stackCountN s1)) (s1, 0)
          in case buildInterleavedVerticesN A maxLength s2 of
               Inl e \<Rightarrow> Inl e
             | Inr s3 \<Rightarrow> Inr (buildVbosN s3)))"

definition flatVertexBodyN ::
  "('d, 'f) arith \<Rightarrow> ('d, 'f) sphereN \<Rightarrow> 'd \<Rightarrow> 'd \<Rightarrow> 'd \<Rightarrow> nat \<Rightarrow> nat \<Rightarrow>
   'd vertex list \<Rightarrow> 'd vertex list" where
  "flatVertexBodyN A s sectorStep xy z i j tmpVertices =
     (let sectorAngle = fmul A (num A (of_nat j)) sectorStep;
          vertex = Vertex (fmul A xy (fcos A sectorAngle))
                          (fmul A xy (fsin A sectorAngle))
                          z
                          (fdiv A (num A (of_nat j)) (num A (sectorCountN s)))
                          (fdiv A (num A (of_nat i)) (num A (stackCountN s)))
      in tmpVertices @ [vertex])"

definition flatVertexRowN ::
  "('d, 'f) arith \<Rightarrow> ('d, 'f) sphereN \<Rightarrow> 'd \<Rightarrow> 'd \<Rightarrow> nat \<Rightarrow>
   'd vertex list \<Rightarrow> 'd vertex list" where
  "flatVertexRowN A s sectorStep stackStep i tmpVertices =
     (let stackAngle = fsub A (fdiv A (mathPI A) (num A 2))
                              (fmul A (num A (of_nat i)) stackStep);
          xy = fmul A (radiusN s) (fcos A stackAngle);
          z = fmul A (radiusN s) (fsin A stackAngle)
      in fold (flatVertexBodyN A s sectorStep xy z i) (upToInclN (sectorCountN s)) tmpVertices)"

text \<open>
  \<open>tmpVertices[k]\<close> for a number \<open>k\<close>: an element when \<open>k\<close> is an integer within the array,
  \<open>undefined\<close> otherwise (the array has no property named by a fraction).
\<close>

definition tmpGetN :: "'d vertex list \<Rightarrow> rat \<Rightarrow> 'd vertex option" where
  "tmpGetN tmpVertices k =
     (if k = of_int \<lfloor>k\<rfloor> \<and> 0 \<le> k \<and> \<lfloor>k\<rfloor> < int (length tmpVertices)
      then Some (tmpVertices ! nat \<lfloor>k\<rfloor>) else None)"

definition putTriangleN ::
  "('d, 'f) arith \<Rightarrow> 'd vertex \<Rightarrow> 'd vertex \<Rightarrow> 'd vertex \<Rightarrow>
   ('d, 'f) sphereN \<times> nat \<times> nat \<times> nat \<times> int \<Rightarrow> ('d, 'f) sphereN \<times> nat \<times> nat \<times> nat \<times> int" where
  "putTriangleN A a b c = (\<lambda>(s, ii, jj, kk, index).
     (let s1 = addVertexN A ii (v_x a) (v_y a) (v_z a) s;
          s2 = addVertexN A (ii + 3) (v_x b) (v_y b) (v_z b) s1;
          s3 = addVertexN A (ii + 6) (v_x c) (v_y c) (v_z c) s2;
          s4 = addTexCoordN A jj (v_s a) (v_t a) s3;
          s5 = addTexCoordN A (jj + 2) (v_s b) (v_t b) s4;
          s6 = addTexCoordN A (jj + 4) (v_s c) (v_t c) s5;
          n = computeFaceNormal A (v_x a) (v_y a) (v_z a) (v_x b) (v_y b) (v_z b)
                                  (v_x c) (v_y c) (v_z c);
          s7 = addNormalN A ii (getF A n 0) (getF A n 1) (getF A n 2) s6;
          s8 = addNormalN A (ii + 3) (getF A n 0) (getF A n 1) (getF A n 2) s7;
          s9 = addNormalN A (ii + 6) (getF A n 0) (getF A n 1) (getF A n 2) s8;
          s10 = addIndicesN kk (of_int index) (of_int index + 1) (of_int index + 2) s9
      in (s10, ii + 9, jj + 6, kk + 3, index + 3)))"

definition putQuadN ::
  "('d, 'f) arith \<Rightarrow> 'd vertex \<Rightarrow> 'd vertex \<Rightarrow> 'd vertex \<Rightarrow> 'd vertex \<Rightarrow>
   ('d, 'f) sphereN \<times> nat \<times> nat \<times> nat \<times> int \<Rightarrow> ('d, 'f) sphereN \<times> nat \<times> nat \<times> nat \<times> int" where
  "putQuadN A a b c d = (\<lambda>(s, ii, jj, kk, index).
     (let s1 = addVertexN A ii (v_x a) (v_y a) (v_z a) s;
          s2 = addVertexN A (ii + 3) (v_x b) (v_y b) (v_z b) s1;
          s3 = addVertexN A (ii + 6) (v_x c) (v_y c) (v_z c) s2;
          s4 = addVertexN A (ii + 9) (v_x d) (v_y d) (v_z d) s3;
          s5 = addTexCoordN A jj (v_s a) (v_t a) s4;
          s6 = addTexCoordN A (jj + 2) (v_s b) (v_t b) s5;
          s7 = addTexCoordN A (jj + 4) (v_s c) (v_t c) s6;
          s8 = addTexCoordN A (jj + 6) (v_s d) (v_t d) s7;
          n = computeFaceNormal A (v_x a) (v_y a) (v_z a) (v_x b) (v_y b) (v_z b)
                                  (v_x c) (v_y c) (v_z c);
          s9 = addNormalN A ii (getF A n 0) (getF A n 1) (getF A n 2) s8;
          s10 = addNormalN A (ii + 3) (getF A n 0) (getF A n 1) (getF A n 2) s9;
          s11 = addNormalN A (ii + 6) (getF A n 0) (getF A n 1) (getF A n 2) s10;
          s12 = addIndicesN kk (of_int index) (of_int index + 1) (of_int index + 2) s11;
          s13 = addIndicesN (kk + 3) (of_int index + 2) (of_int index + 1) (of_int index + 3) s12
      in (s13, ii + 12, jj + 8, kk + 6, index + 4)))"

definition flatBodyN ::
  "('d, 'f) arith \<Rightarrow> 'd vertex list \<Rightarrow> nat \<Rightarrow> nat \<Rightarrow>
   (('d, 'f) sphereN \<times> nat \<times> nat \<times> nat \<times> int) \<times> rat \<times> rat \<Rightarrow>
   js_error + (('d, 'f) sphereN \<times> nat \<times> nat \<times> nat \<times> int) \<times> rat \<times> rat" where
  "flatBodyN A tmpVertices i j = (\<lambda>(st, vi1, vi2).
     (let v1 = tmpGetN tmpVertices vi1;
          v2 = tmpGetN tmpVertices vi2;
          v3 = tmpGetN tmpVertices (vi1 + 1);
          v4 = tmpGetN tmpVertices (vi2 + 1)
      in if int i = 0 then
           (case (v1, v2, v4) of
              (Some a, Some b, Some c) \<Rightarrow> Inr (putTriangleN A a b c st, vi1 + 1, vi2 + 1)
            | _ \<Rightarrow> Inl TypeError)
         else if of_nat i = stackCountN (fst st) - 1 then
           (case (v1, v2, v3) of
              (Some a, Some b, Some c) \<Rightarrow> Inr (putTriangleN A a b c st, vi1 + 1, vi2 + 1)
            | _ \<Rightarrow> Inl TypeError)
         else
           (case (v1, v2, v3, v4) of
              (Some a, Some b, Some c, Some d) \<Rightarrow> Inr (putQuadN A a b c d st, vi1 + 1, vi2 + 1)
            | _ \<Rightarrow> Inl TypeError)))"

definition flatRowN ::
  "('d, 'f) arith \<Rightarrow> 'd vertex list \<Rightarrow> nat \<Rightarrow>
   ('d, 'f) sphereN \<times> nat \<times> nat \<times> nat \<times> int \<Rightarrow>
   js_error + ('d, 'f) sphereN \<times> nat \<times> nat \<times> nat \<times> int" where
  "flatRowN A tmpVertices i st =
     (let vi1 = of_nat i * (sectorCountN (fst st) + 1);
          vi2 = (of_nat i + 1) * (sectorCountN (fst st) + 1)
      in case foldE (flatBodyN A tmpVertices i) (upToExclN (sectorCountN (fst st)))
                    (st, vi1, vi2) of
           Inl e \<Rightarrow> Inl e
         | Inr (st', vi1', vi2') \<Rightarrow> Inr st')"

definition buildVerticesFlatN ::
  "('d, 'f) arith \<Rightarrow> int \<Rightarrow> ('d, 'f) sphereN \<Rightarrow> js_error + ('d, 'f) sphereN" where
  "buildVerticesFlatN A maxLength s0 =
     (let sectorStep = fdiv A (fmul A (num A 2) (mathPI A)) (num A (sectorCountN s0));
          stackStep = fdiv A (mathPI A) (num A (stackCountN s0));
          tmpVertices = fold (flatVertexRowN A s0 sectorStep stackStep)
                             (upToInclN (stackCountN s0)) []
      in case resizeArraysFlatN A maxLength s0 of
           Inl e \<Rightarrow> Inl e
         | Inr s \<Rightarrow>
            (case foldE (flatRowN A tmpVertices) (upToExclN (stackCountN s)) (s, 0, 0, 0, 0) of
               Inl e \<Rightarrow> Inl e
             | Inr (s1, ii, jj, kk, index) \<Rightarrow>
                 (case buildInterleavedVerticesN A maxLength s1 of
                    Inl e \<Rightarrow> Inl e
                  | Inr s2 \<Rightarrow> Inr (buildVbosN s2))))"

definition setN ::
  "('d, 'f) arith \<Rightarrow> int \<Rightarrow> 'd \<Rightarrow> rat \<Rightarrow> rat \<Rightarrow> bool \<Rightarrow> ('d, 'f) sphereN \<Rightarrow>
   js_error + ('d, 'f) sphereN" where
  "setN A maxLength r se st sm s =
     (let s1 = s\<lparr>radiusN := r\<rparr>;
          s2 = s1\<lparr>sectorCountN := se\<rparr>;
          s3 = (if se < 3 then s2\<lparr>sectorCountN := 3\<rparr> else s2);
          s4 = s3\<lparr>stackCountN := st\<rparr>;
          s5 = (if st < 2 then s4\<lparr>stackCountN := 2\<rparr> else s4);
          s6 = s5\<lparr>smoothN := sm\<rparr>
      in if sm then buildVerticesSmoothN A maxLength s6 else buildVerticesFlatN A maxLength s6)"

definition SphereN ::
  "('d, 'f) arith \<Rightarrow> int \<Rightarrow> 'f glctx \<Rightarrow> 'd \<Rightarrow> rat \<Rightarrow> rat \<Rightarrow> bool \<Rightarrow>
   js_error + ('d, 'f) sphereN" where
  "SphereN A maxLength g r sectors stacks sm =
     (let (vbo1, g1) = createBuffer g;
          (vbo2, g2) = createBuffer g1;
          this = \<lparr> glN = g2, radiusN = num A 1, sectorCountN = 36, stackCountN = 18,
                   smoothN = True, verticesN = [], normalsN = [], texCoordsN = [],
                   indicesN = [], interleavedVerticesN = [], strideN = 32,
                   vboVertexN = vbo1, vboIndexN = vbo2 \<rparr>
      in setN A maxLength r sectors stacks sm this)"

section \<open>Specification-level definitions\<close>

text \<open>
  An array that is filled front to back: \<open>written init W\<close> is the array \<open>init\<close> after the
  elements of \<open>W\<close> have been stored at positions \<open>0, 1, 2, \<dots>\<close> (stores past the end are
  ignored).
\<close>

definition written :: "'a list \<Rightarrow> 'a list \<Rightarrow> 'a list" where
  "written init W = take (length init) (W @ drop (length W) init)"

text \<open>
  The index generation of smooth mode as the specification words it: for stack \<open>i\<close> and
  sector \<open>j\<close>, with \<open>k1 = i(sectorCount+1)+j\<close> and \<open>k2 = k1+sectorCount+1\<close>, the triangle
  \<open>(k1, k2, k1+1)\<close> unless \<open>i = 0\<close>, then \<open>(k1+1, k2, k2+1)\<close> unless \<open>i = stackCount-1\<close>.
\<close>

definition spec_smoothCell :: "int \<Rightarrow> int \<Rightarrow> nat \<Rightarrow> nat \<Rightarrow> int list" where
  "spec_smoothCell sec st i j =
     (let k1 = int i * (sec + 1) + int j; k2 = k1 + sec + 1
      in (if i = 0 then [] else [k1, k2, k1 + 1]) @
         (if int i = st - 1 then [] else [k1 + 1, k2, k2 + 1]))"

definition spec_smoothRow :: "int \<Rightarrow> int \<Rightarrow> nat \<Rightarrow> int list" where
  "spec_smoothRow sec st i = concat (map (spec_smoothCell sec st i) [0..<nat sec])"

definition spec_smoothIndices :: "int \<Rightarrow> int \<Rightarrow> int list" where
  "spec_smoothIndices sec st = concat (map (spec_smoothRow sec st) [0..<nat st])"

text \<open>
  \<open>attrFrame s s'\<close>: \<open>s'\<close> is \<open>s\<close> except for the contents (not the lengths) of the three
  attribute arrays.
\<close>

definition attrFrame :: "('d, 'f) sphere \<Rightarrow> ('d, 'f) sphere \<Rightarrow> bool" where
  "attrFrame s s' \<longleftrightarrow>
     s' = s\<lparr>vertices := vertices s', normals := normals s', texCoords := texCoords s'\<rparr> \<and>
     length (vertices s') = length (vertices s) \<and>
     length (normals s') = length (normals s) \<and>
     length (texCoords s') = length (texCoords s)"

text \<open>
  The indices flat mode emits, as a list: per cell one triangle on the first and last
  stack (three new vertices), two triangles on the others (four new vertices); \<open>index\<close>
  is the number of vertices stored so far.
\<close>

definition flatCellIndices :: "int \<Rightarrow> nat \<Rightarrow> int \<Rightarrow> int list" where
  "flatCellIndices st i index =
     (if int i = 0 \<or> int i = st - 1 then [index, index + 1, index + 2]
      else [index, index + 1, index + 2, index + 2, index + 1, index + 3])"

definition flatCellVerts :: "int \<Rightarrow> nat \<Rightarrow> nat" where
  "flatCellVerts st i = (if int i = 0 \<or> int i = st - 1 then 3 else 4)"

fun flatRowIndices :: "int \<Rightarrow> nat \<Rightarrow> int \<Rightarrow> nat \<Rightarrow> int list" where
  "flatRowIndices st i index 0 = []"
| "flatRowIndices st i index (Suc n) =
     flatCellIndices st i index @ flatRowIndices st i (index + int (flatCellVerts st i)) n"

fun flatIndices :: "int \<Rightarrow> int \<Rightarrow> nat list \<Rightarrow> int \<Rightarrow> int list" where
  "flatIndices sec st [] index = []"
| "flatIndices sec st (i # rows) index =
     flatRowIndices st i index (nat sec) @
     flatIndices sec st rows (index + int (flatCellVerts st i * nat sec))"

text \<open>The state of the flat loops after the index list \<open>W\<close> has been emitted.\<close>

definition flatInv ::
  "('d, 'f) sphere \<Rightarrow> 16 word list \<Rightarrow> 16 word list \<Rightarrow> ('d, 'f) sphere \<Rightarrow> bool" where
  "flatInv s0 init W s \<longleftrightarrow> attrFrame (s0\<lparr>indices := written init W\<rparr>) s"

definition flatOK ::
  "('d, 'f) sphere \<Rightarrow> 16 word list \<Rightarrow> 16 word list \<Rightarrow> int \<Rightarrow>
   ('d, 'f) sphere \<times> nat \<times> nat \<times> nat \<times> int \<Rightarrow> bool" where
  "flatOK s0 init W idx = (\<lambda>(s, ii, jj, kk, index).
     flatInv s0 init W s \<and> kk = length W \<and> index = idx)"

text \<open>Record \<open>v\<close> of the interleaved buffer, read from the three source arrays.\<close>

definition record8 :: "'f list \<Rightarrow> 'f list \<Rightarrow> 'f list \<Rightarrow> nat \<Rightarrow> 'f list" where
  "record8 vs ns ts v =
     [vs ! (3 * v), vs ! (3 * v + 1), vs ! (3 * v + 2),
      ns ! (3 * v), ns ! (3 * v + 1), ns ! (3 * v + 2),
      ts ! (2 * v), ts ! (2 * v + 1)]"

text \<open>
  \<open>uploaded s s'\<close>: the arrays of \<open>s'\<close> were uploaded after the calls the context of \<open>s\<close> had
  already received.
\<close>

definition uploaded :: "('d, 'f) sphere \<Rightarrow> ('d, 'f) sphere \<Rightarrow> bool" where
  "uploaded s s' \<longleftrightarrow> calls (gl s') = calls (gl s) @ upload s'"

text \<open>A sphere object with the given parameters stored and nothing built yet.\<close>

definition example :: "int \<Rightarrow> int \<Rightarrow> bool \<Rightarrow> (real, real) sphere" where
  "example sec st sm =
     \<lparr> gl = \<lparr> calls = [], buffers = 2 \<rparr>, radius = 1, sectorCount = sec, stackCount = st,
       smooth = sm, vertices = [], normals = [], texCoords = [], indices = [],
       interleavedVertices = [], stride = 32, vboVertex = 0, vboIndex = 1 \<rparr>"

text \<open>
  The cross product of the edges \<open>v2 - v1\<close> and \<open>v3 - v1\<close> of a triangle, the magnitude
  of a vector, and a vector divided by a number and stored in a \<open>Float32Array\<close>.
\<close>

definition edgeCross ::
  "('d, 'f) arith \<Rightarrow> 'd \<Rightarrow> 'd \<Rightarrow> 'd \<Rightarrow> 'd \<Rightarrow> 'd \<Rightarrow> 'd \<Rightarrow> 'd \<Rightarrow> 'd \<Rightarrow> 'd \<Rightarrow> 'd \<times> 'd \<times> 'd" where
  "edgeCross A x1 y1 z1 x2 y2 z2 x3 y3 z3 =
     (let (a1, a2, a3) = (fsub A x2 x1, fsub A y2 y1, fsub A z2 z1);
          (b1, b2, b3) = (fsub A x3 x1, fsub A y3 y1, fsub A z3 z1)
      in (fsub A (fmul A a2 b3) (fmul A a3 b2),
          fsub A (fmul A a3 b1) (fmul A a1 b3),
          fsub A (fmul A a1 b2) (fmul A a2 b1)))"

definition magnitude :: "('d, 'f) arith \<Rightarrow> 'd \<times> 'd \<times> 'd \<Rightarrow> 'd" where
  "magnitude A = (\<lambda>(nx, ny, nz).
     fsqrt A (fadd A (fadd A (fmul A nx nx) (fmul A ny ny)) (fmul A nz nz)))"

definition scaled :: "('d, 'f) arith \<Rightarrow> 'd \<times> 'd \<times> 'd \<Rightarrow> 'd \<Rightarrow> 'f list" where
  "scaled A = (\<lambda>(nx, ny, nz) len.
     [toF32 A (fdiv A nx len), toF32 A (fdiv A ny len), toF32 A (fdiv A nz len)])"

text \<open>
  The attributes of smooth mode as the specification words them, for stack \<open>i\<close> and
  sector \<open>j\<close>: the position
  \<open>(r cos(stackAngle) cos(sectorAngle), r cos(stackAngle) sin(sectorAngle), r sin(stackAngle))\<close>
  with \<open>stackAngle = \<pi>/2 - i (\<pi>/stackCount)\<close> and \<open>sectorAngle = j (2\<pi>/sectorCount)\<close>, the
  normal (the position scaled by \<open>1/radius\<close>) and the texture coordinate
  \<open>(j/sectorCount, i/stackCount)\<close>.
\<close>

definition spec_position :: "('d, 'f) arith \<Rightarrow> 'd \<Rightarrow> int \<Rightarrow> int \<Rightarrow> nat \<Rightarrow> nat \<Rightarrow> 'd \<times> 'd \<times> 'd" where
  "spec_position A r sec st i j =
     (let stackAngle = fsub A (fdiv A (mathPI A) (num A 2))
                         (fmul A (num A (of_nat i)) (fdiv A (mathPI A) (num A (of_int st))));
          sectorAngle = fmul A (num A (of_nat j))
                         (fdiv A (fmul A (num A 2) (mathPI A)) (num A (of_int sec)));
          xy = fmul A r (fcos A stackAngle)
      in (fmul A xy (fcos A sectorAngle), fmul A xy (fsin A sectorAngle),
          fmul A r (fsin A stackAngle)))"

definition spec_normal :: "('d, 'f) arith \<Rightarrow> 'd \<Rightarrow> int \<Rightarrow> int \<Rightarrow> nat \<Rightarrow> nat \<Rightarrow> 'd \<times> 'd \<times> 'd" where
  "spec_normal A r sec st i j =
     (let (x, y, z) = spec_position A r sec st i j;
          lengthInv = fdiv A (num A 1) r
      in (fmul A x lengthInv, fmul A y lengthInv, fmul A z lengthInv))"

definition spec_texCoord :: "('d, 'f) arith \<Rightarrow> int \<Rightarrow> int \<Rightarrow> nat \<Rightarrow> nat \<Rightarrow> 'd \<times> 'd" where
  "spec_texCoord A sec st i j =
     (fdiv A (num A (of_nat j)) (num A (of_int sec)),
      fdiv A (num A (of_nat i)) (num A (of_int st)))"

text \<open>
  Three or two numbers as they are stored in a \<open>Float32Array\<close>, and the attribute arrays of
  smooth mode: one entry per stack \<open>i = 0..stackCount\<close> and sector \<open>j = 0..sectorCount\<close>, in
  that order.
\<close>

definition store3 :: "('d, 'f) arith \<Rightarrow> 'd \<times> 'd \<times> 'd \<Rightarrow> 'f list" where
  "store3 A = (\<lambda>(x, y, z). [toF32 A x, toF32 A y, toF32 A z])"

definition store2 :: "('d, 'f) arith \<Rightarrow> 'd \<times> 'd \<Rightarrow> 'f list" where
  "store2 A = (\<lambda>(x, y). [toF32 A x, toF32 A y])"

definition grid :: "int \<Rightarrow> int \<Rightarrow> (nat \<Rightarrow> nat \<Rightarrow> 'a list) \<Rightarrow> 'a list" where
  "grid sec st f =
     concat (map (\<lambda>i. concat (map (f i) [0..<nat (sec + 1)])) [0..<nat (st + 1)])"

definition smoothVertices :: "('d, 'f) arith \<Rightarrow> 'd \<Rightarrow> int \<Rightarrow> int \<Rightarrow> 'f list" where
  "smoothVertices A r sec st = grid sec st (\<lambda>i j. store3 A (spec_position A r sec st i j))"

definition smoothNormals :: "('d, 'f) arith \<Rightarrow> 'd \<Rightarrow> int \<Rightarrow> int \<Rightarrow> 'f list" where
  "smoothNormals A r sec st = grid sec st (\<lambda>i j. store3 A (spec_normal A r sec st i j))"

definition smoothTexCoords :: "('d, 'f) arith \<Rightarrow> int \<Rightarrow> int \<Rightarrow> 'f list" where
  "smoothTexCoords A sec st = grid sec st (\<lambda>i j. store2 A (spec_texCoord A sec st i j))"

text \<open>The object after the attribute lists \<open>V\<close>, \<open>N\<close> and \<open>T\<close> have been stored front to back.\<close>

definition filled ::
  "('d, 'f) sphere \<Rightarrow> 'f list \<Rightarrow> 'f list \<Rightarrow> 'f list \<Rightarrow> ('d, 'f) sphere" where
  "filled s0 V N T =
     s0\<lparr>vertices := written (vertices s0) V, normals := written (normals s0) N,
        texCoords := written (texCoords s0) T\<rparr>"

text \<open>One vertex of the smooth loops, from the values the loops have computed.\<close>

definition loopVertex :: "('d, 'f) arith \<Rightarrow> 'd \<Rightarrow> 'd \<Rightarrow> 'd \<Rightarrow> nat \<Rightarrow> 'd \<times> 'd \<times> 'd" where
  "loopVertex A ss xy z j =
     (fmul A xy (fcos A (fmul A (num A (of_nat j)) ss)),
      fmul A xy (fsin A (fmul A (num A (of_nat j)) ss)), z)"

definition loopNormal :: "('d, 'f) arith \<Rightarrow> 'd \<Rightarrow> 'd \<times> 'd \<times> 'd \<Rightarrow> 'd \<times> 'd \<times> 'd" where
  "loopNormal A li = (\<lambda>(x, y, z). (fmul A x li, fmul A y li, fmul A z li))"

text \<open>
  Flat mode: the entries of \<open>tmpVertices\<close>, what one corner and one face contribute, and the
  attributes of the cell that reads \<open>tmpVertices\<close> at \<open>vi1\<close>, \<open>vi2\<close>, \<open>vi1 + 1\<close>, \<open>vi2 + 1\<close>: a
  triangle on the first and on the last stack, a quad elsewhere (whose fourth normal is
  never stored and stays zero).
\<close>

definition gridVertex :: "('d, 'f) arith \<Rightarrow> 'd \<Rightarrow> int \<Rightarrow> int \<Rightarrow> nat \<Rightarrow> nat \<Rightarrow> 'd vertex" where
  "gridVertex A r sec st i j =
     (case spec_position A r sec st i j of (x, y, z) \<Rightarrow>
      case spec_texCoord A sec st i j of (s, t) \<Rightarrow> Vertex x y z s t)"

definition gridVertices :: "('d, 'f) arith \<Rightarrow> 'd \<Rightarrow> int \<Rightarrow> int \<Rightarrow> 'd vertex list" where
  "gridVertices A r sec st = grid sec st (\<lambda>i j. [gridVertex A r sec st i j])"

definition cornerV :: "('d, 'f) arith \<Rightarrow> 'd vertex \<Rightarrow> 'f list" where
  "cornerV A a = store3 A (v_x a, v_y a, v_z a)"

definition cornerT :: "('d, 'f) arith \<Rightarrow> 'd vertex \<Rightarrow> 'f list" where
  "cornerT A a = store2 A (v_s a, v_t a)"

definition faceN :: "('d, 'f) arith \<Rightarrow> 'd vertex \<Rightarrow> 'd vertex \<Rightarrow> 'd vertex \<Rightarrow> 'f list" where
  "faceN A a b c =
     (let n = computeFaceNormal A (v_x a) (v_y a) (v_z a) (v_x b) (v_y b) (v_z b)
                                  (v_x c) (v_y c) (v_z c)
      in store3 A (getF A n 0, getF A n 1, getF A n 2))"

definition flatCellV :: "('d, 'f) arith \<Rightarrow> 'd vertex list \<Rightarrow> int \<Rightarrow> nat \<Rightarrow> nat \<Rightarrow> nat \<Rightarrow> 'f list" where
  "flatCellV A tmp st i vi1 vi2 =
     (let v1 = tmp ! vi1; v2 = tmp ! vi2; v3 = tmp ! (vi1 + 1); v4 = tmp ! (vi2 + 1)
      in if int i = 0 then cornerV A v1 @ cornerV A v2 @ cornerV A v4
         else if int i = st - 1 then cornerV A v1 @ cornerV A v2 @ cornerV A v3
         else cornerV A v1 @ cornerV A v2 @ cornerV A v3 @ cornerV A v4)"

definition flatCellT :: "('d, 'f) arith \<Rightarrow> 'd vertex list \<Rightarrow> int \<Rightarrow> nat \<Rightarrow> nat \<Rightarrow> nat \<Rightarrow> 'f list" where
  "flatCellT A tmp st i vi1 vi2 =
     (let v1 = tmp ! vi1; v2 = tmp ! vi2; v3 = tmp ! (vi1 + 1); v4 = tmp ! (vi2 + 1)
      in if int i = 0 then cornerT A v1 @ cornerT A v2 @ cornerT A v4
         else if int i = st - 1 then cornerT A v1 @ cornerT A v2 @ cornerT A v3
         else cornerT A v1 @ cornerT A v2 @ cornerT A v3 @ cornerT A v4)"

definition flatCellN :: "('d, 'f) arith \<Rightarrow> 'd vertex list \<Rightarrow> int \<Rightarrow> nat \<Rightarrow> nat \<Rightarrow> nat \<Rightarrow> 'f list" where
  "flatCellN A tmp st i vi1 vi2 =
     (let v1 = tmp ! vi1; v2 = tmp ! vi2; v3 = tmp ! (vi1 + 1); v4 = tmp ! (vi2 + 1)
      in if int i = 0 then faceN A v1 v2 v4 @ faceN A v1 v2 v4 @ faceN A v1 v2 v4
         else if int i = st - 1 then faceN A v1 v2 v3 @ faceN A v1 v2 v3 @ faceN A v1 v2 v3
         else faceN A v1 v2 v3 @ faceN A v1 v2 v3 @ faceN A v1 v2 v3 @ zeros A 3)"

text \<open>
  The cells of a row, the rows of the sphere, and the attribute arrays of flat mode.
\<close>

definition rowCells :: "(nat \<Rightarrow> nat \<Rightarrow> 'a list) \<Rightarrow> nat \<Rightarrow> nat \<Rightarrow> nat \<Rightarrow> 'a list" where
  "rowCells f vi1 vi2 n = concat (map (\<lambda>k. f (vi1 + k) (vi2 + k)) [0..<n])"

definition flatGrid :: "int \<Rightarrow> int \<Rightarrow> (nat \<Rightarrow> nat \<Rightarrow> nat \<Rightarrow> 'a list) \<Rightarrow> 'a list" where
  "flatGrid sec st f =
     concat (map (\<lambda>i. rowCells (f i) (i * nat (sec + 1)) ((i + 1) * nat (sec + 1)) (nat sec))
                 [0..<nat st])"

definition flatVertices :: "('d, 'f) arith \<Rightarrow> 'd \<Rightarrow> int \<Rightarrow> int \<Rightarrow> 'f list" where
  "flatVertices A r sec st = flatGrid sec st (flatCellV A (gridVertices A r sec st) st)"

definition flatNormals :: "('d, 'f) arith \<Rightarrow> 'd \<Rightarrow> int \<Rightarrow> int \<Rightarrow> 'f list" where
  "flatNormals A r sec st = flatGrid sec st (flatCellN A (gridVertices A r sec st) st)"

definition flatTexCoords :: "('d, 'f) arith \<Rightarrow> 'd \<Rightarrow> int \<Rightarrow> int \<Rightarrow> 'f list" where
  "flatTexCoords A r sec st = flatGrid sec st (flatCellT A (gridVertices A r sec st) st)"

text \<open>The object after \<open>V\<close>, \<open>N\<close>, \<open>T\<close> and the index list \<open>W\<close> have been stored.\<close>

definition filled4 ::
  "('d, 'f) sphere \<Rightarrow> 'f list \<Rightarrow> 'f list \<Rightarrow> 'f list \<Rightarrow> 16 word list \<Rightarrow> ('d, 'f) sphere" where
  "filled4 s0 V N T W =
     s0\<lparr>vertices := written (vertices s0) V, normals := written (normals s0) N,
        texCoords := written (texCoords s0) T, indices := written (indices s0) W\<rparr>"

text \<open>
  The interleaved buffer of three attribute arrays (what \<open>buildInterleavedVertices\<close>
  stores), and the mesh of an object: \<open>meshOf A s\<close> says that the five arrays of \<open>s\<close> are the
  ones a build computes from the parameters stored in \<open>s\<close>, whatever they held before.
\<close>

definition interleave :: "('d, 'f) arith \<Rightarrow> 'f list \<Rightarrow> 'f list \<Rightarrow> 'f list \<Rightarrow> 'f list" where
  "interleave A vs ns ts =
     interleaveLoop A vs ns ts 0 0 0 (zeros A (nat \<lfloor>rat_of_nat (length vs) / 3 * 8\<rfloor>))"

definition meshOf :: "('d, 'f) arith \<Rightarrow> ('d, 'f) sphere \<Rightarrow> bool" where
  "meshOf A s \<longleftrightarrow>
     (vertices s, normals s, texCoords s, indices s) =
       (if smooth s
        then (smoothVertices A (radius s) (sectorCount s) (stackCount s),
              smoothNormals A (radius s) (sectorCount s) (stackCount s),
              smoothTexCoords A (sectorCount s) (stackCount s),
              map word_of_int (spec_smoothIndices (sectorCount s) (stackCount s)))
        else (flatVertices A (radius s) (sectorCount s) (stackCount s),
              flatNormals A (radius s) (sectorCount s) (stackCount s),
              flatTexCoords A (radius s) (sectorCount s) (stackCount s),
              map word_of_int
                (flatIndices (sectorCount s) (stackCount s) [0..<nat (stackCount s)] 0))) \<and>
     interleavedVertices s = interleave A (vertices s) (normals s) (texCoords s)"

text \<open>
  \<open>rebuilt A s s'\<close>: a build ran between \<open>s\<close> and \<open>s'\<close>: the five arrays of \<open>s'\<close> are the mesh
  of the parameters of \<open>s'\<close>, and they were uploaded after the calls already made.
\<close>

definition rebuilt :: "('d, 'f) arith \<Rightarrow> ('d, 'f) sphere \<Rightarrow> ('d, 'f) sphere \<Rightarrow> bool" where
  "rebuilt A s s' \<longleftrightarrow> meshOf A s' \<and> uploaded s s'"

text \<open>
  \<open>toSphere\<close> reads an object with numeric counts as one with integral counts (the floor
  of a count is the count itself when it is an integer), \<open>ofSphere\<close> goes the other way;
  \<open>ofIndexState\<close> and \<open>ofCellState\<close> do the same to the states of the smooth index loop
  and of the flat cell loop.
\<close>

definition toSphere :: "('d, 'f) sphereN \<Rightarrow> ('d, 'f) sphere" where
  "toSphere t =
     \<lparr> gl = glN t, radius = radiusN t, sectorCount = \<lfloor>sectorCountN t\<rfloor>,
       stackCount = \<lfloor>stackCountN t\<rfloor>, smooth = smoothN t, vertices = verticesN t,
       normals = normalsN t, texCoords = texCoordsN t, indices = indicesN t,
       interleavedVertices = interleavedVerticesN t, stride = strideN t,
       vboVertex = vboVertexN t, vboIndex = vboIndexN t \<rparr>"

definition ofSphere :: "('d, 'f) sphere \<Rightarrow> ('d, 'f) sphereN" where
  "ofSphere s =
     \<lparr> glN = gl s, radiusN = radius s, sectorCountN = of_int (sectorCount s),
       stackCountN = of_int (stackCount s), smoothN = smooth s, verticesN = vertices s,
       normalsN = normals s, texCoordsN = texCoords s, indicesN = indices s,
       interleavedVerticesN = interleavedVertices s, strideN = stride s,
       vboVertexN = vboVertex s, vboIndexN = vboIndex s \<rparr>"

definition ofIndexState ::
  "('d, 'f) sphere \<times> nat \<times> int \<times> int \<Rightarrow> ('d, 'f) sphereN \<times> nat \<times> rat \<times> rat" where
  "ofIndexState = (\<lambda>(s, kk, k1, k2). (ofSphere s, kk, of_int k1, of_int k2))"

definition ofCellState ::
  "(('d, 'f) sphere \<times> nat \<times> nat \<times> nat \<times> int) \<times> int \<times> int \<Rightarrow>
   (('d, 'f) sphereN \<times> nat \<times> nat \<times> nat \<times> int) \<times> rat \<times> rat" where
  "ofCellState = (\<lambda>(st, vi1, vi2). (map_prod ofSphere id st, of_int vi1, of_int vi2))"

section \<open>Filling an array front to back\<close>

lemma written_Nil: "written init [] = init"
  by (simp add: written_def)

lemma length_written: "length (written init W) = length init"
  by (simp add: written_def)

lemma written_full: "length W = length init \<Longrightarrow> written init W = W"
  by (simp add: written_def)

lemma written_store: "(written init W)[length W := x] = written init (W @ [x])"
proof (cases "length W < length init")
  case True
  then have d: "drop (length W) init = init ! length W # drop (Suc (length W)) init"
    by (simp add: Cons_nth_drop_Suc)
  have "(written init W)[length W := x] = take (length init) ((W @ drop (length W) init)[length W := x])"
    by (simp add: written_def take_update_swap)
  also have "(W @ drop (length W) init)[length W := x] = W @ x # drop (Suc (length W)) init"
    by (simp add: d list_update_append)
  finally show ?thesis by (simp add: written_def)
next
  case False
  then have "length (written init W) \<le> length W" by (simp add: length_written)
  then have "(written init W)[length W := x] = written init W" by (rule list_update_beyond)
  with False show ?thesis by (simp add: written_def)
qed

lemma written_store3:
  "k = length W \<Longrightarrow> (written init W)[k := a, k + 1 := b, k + 2 := c] = written init (W @ [a, b, c])"
proof -
  assume k: "k = length W"
  have 1: "(written init W)[length W := a] = written init (W @ [a])" by (rule written_store)
  have 2: "(written init (W @ [a]))[length (W @ [a]) := b] = written init ((W @ [a]) @ [b])" by (rule written_store)
  have 3: "(written init ((W @ [a]) @ [b]))[length ((W @ [a]) @ [b]) := c] = written init (((W @ [a]) @ [b]) @ [c])" by (rule written_store)
  show ?thesis using 1 2 3 k by simp
qed

lemma addIndices_written:
  "kk = length W \<Longrightarrow>
   addIndices kk a b c (s\<lparr>indices := written init W\<rparr>) =
   s\<lparr>indices := written init (W @ [word_of_int a, word_of_int b, word_of_int c])\<rparr>"
  using written_store3 [of kk W init "word_of_int a" "word_of_int b" "word_of_int c"]
  by (simp add: addIndices_def)

section \<open>The smooth index loops emit the specified list\<close>

lemma smoothIndexBody_written:
  assumes "stackCount s = st" "kk = length W" "k1 = int i * (sec + 1) + int j" "k2 = k1 + sec + 1"
  shows "smoothIndexBody i j (s\<lparr>indices := written init W\<rparr>, kk, k1, k2) =
         (s\<lparr>indices := written init (W @ map word_of_int (spec_smoothCell sec st i j))\<rparr>,
          length (W @ map word_of_int (spec_smoothCell sec st i j)), k1 + 1, k2 + 1)"
  using assms
  by (simp add: smoothIndexBody_def spec_smoothCell_def addIndices_written Let_def)

lemma smoothIndexInner_written:
  assumes "stackCount s = st"
  shows "fold (smoothIndexBody i) [m..<n]
           (s\<lparr>indices := written init W\<rparr>, length W,
            int i * (sec + 1) + int m, int i * (sec + 1) + int m + sec + 1) =
         (s\<lparr>indices := written init (W @ map word_of_int (concat (map (spec_smoothCell sec st i) [m..<n])))\<rparr>,
          length (W @ map word_of_int (concat (map (spec_smoothCell sec st i) [m..<n]))),
          int i * (sec + 1) + int (max m n), int i * (sec + 1) + int (max m n) + sec + 1)"
proof (induction "n - m" arbitrary: m W)
  case 0
  then show ?case by (simp add: max_def)
next
  case (Suc d)
  then have mn: "m < n" and d: "d = n - Suc m" by simp_all
  let ?c = "map word_of_int (spec_smoothCell sec st i m) :: 16 word list"
  let ?st0 = "(s\<lparr>indices := written init W\<rparr>, length W,
            int i * (sec + 1) + int m, int i * (sec + 1) + int m + sec + 1)"
  have step: "smoothIndexBody i m ?st0 =
         (s\<lparr>indices := written init (W @ ?c)\<rparr>, length (W @ ?c),
          int i * (sec + 1) + int (Suc m), int i * (sec + 1) + int (Suc m) + sec + 1)"
    using smoothIndexBody_written [OF assms refl refl refl, where i=i and sec=sec and j=m and init=init and W=W]
    by (simp add: algebra_simps)
  have "fold (smoothIndexBody i) [m..<n] ?st0 =
        fold (smoothIndexBody i) [Suc m..<n] (smoothIndexBody i m ?st0)"
    using mn by (simp add: upt_rec [of m n])
  also have "\<dots> = (s\<lparr>indices := written init ((W @ ?c) @ map word_of_int (concat (map (spec_smoothCell sec st i) [Suc m..<n])))\<rparr>,
          length ((W @ ?c) @ map word_of_int (concat (map (spec_smoothCell sec st i) [Suc m..<n]))),
          int i * (sec + 1) + int (max (Suc m) n), int i * (sec + 1) + int (max (Suc m) n) + sec + 1)"
    unfolding step by (rule Suc.hyps(1) [OF d])
  also have "(W @ ?c) @ map word_of_int (concat (map (spec_smoothCell sec st i) [Suc m..<n])) =
             W @ map word_of_int (concat (map (spec_smoothCell sec st i) [m..<n]))"
    using mn by (simp add: upt_rec [of m n])
  also have "max (Suc m) n = max m n" using mn by simp
  finally show ?case .
qed

lemma smoothIndexRow_written:
  assumes "stackCount s = st" "sectorCount s = sec"
  shows "smoothIndexRow i (s\<lparr>indices := written init W\<rparr>, length W) =
         (s\<lparr>indices := written init (W @ map word_of_int (spec_smoothRow sec st i))\<rparr>,
          length (W @ map word_of_int (spec_smoothRow sec st i)))"
proof -
  have "fold (smoothIndexBody i) [0..<nat sec]
           (s\<lparr>indices := written init W\<rparr>, length W,
            int i * (sec + 1), int i * (sec + 1) + sec + 1) =
         (s\<lparr>indices := written init (W @ map word_of_int (spec_smoothRow sec st i))\<rparr>,
          length (W @ map word_of_int (spec_smoothRow sec st i)),
          int i * (sec + 1) + int (max 0 (nat sec)), int i * (sec + 1) + int (max 0 (nat sec)) + sec + 1)"
    using smoothIndexInner_written [OF assms(1), where i=i and m=0 and n="nat sec" and init=init and W=W and sec=sec]
    unfolding spec_smoothRow_def by simp
  then show ?thesis
    using assms(2) by (simp add: smoothIndexRow_def upToExcl_def Let_def)
qed

lemma smoothIndexRows_written:
  assumes "stackCount s = st" "sectorCount s = sec"
  shows "fold smoothIndexRow rows (s\<lparr>indices := written init W\<rparr>, length W) =
         (s\<lparr>indices := written init (W @ map word_of_int (concat (map (spec_smoothRow sec st) rows)))\<rparr>,
          length (W @ map word_of_int (concat (map (spec_smoothRow sec st) rows))))"
proof (induction rows arbitrary: W)
  case Nil
  then show ?case by simp
next
  case (Cons i rows)
  let ?c = "map word_of_int (spec_smoothRow sec st i) :: 16 word list"
  have "fold smoothIndexRow (i # rows) (s\<lparr>indices := written init W\<rparr>, length W) =
        fold smoothIndexRow rows (s\<lparr>indices := written init (W @ ?c)\<rparr>, length (W @ ?c))"
    by (simp only: fold_simps smoothIndexRow_written [OF assms])
  also have "\<dots> = (s\<lparr>indices := written init ((W @ ?c) @ map word_of_int (concat (map (spec_smoothRow sec st) rows)))\<rparr>,
          length ((W @ ?c) @ map word_of_int (concat (map (spec_smoothRow sec st) rows))))"
    by (rule Cons.IH)
  also have "(W @ ?c) @ map word_of_int (concat (map (spec_smoothRow sec st) rows)) =
             W @ map word_of_int (concat (map (spec_smoothRow sec st) (i # rows)))"
    by simp
  finally show ?case .
qed

section \<open>The vertex loops keep the array lengths\<close>

lemma attrFrame_refl: "attrFrame s s"
  by (simp add: attrFrame_def)

lemma attrFrame_trans: "attrFrame a b \<Longrightarrow> attrFrame b c \<Longrightarrow> attrFrame a c"
  unfolding attrFrame_def
  by (metis (no_types, lifting) sphere.surjective sphere.update_convs(6,7,8))

lemma attrFrame_addVertex: "attrFrame s (addVertex A k x y z s)"
  by (simp add: attrFrame_def addVertex_def)

lemma attrFrame_addNormal: "attrFrame s (addNormal A k x y z s)"
  by (simp add: attrFrame_def addNormal_def)

lemma attrFrame_addTexCoord: "attrFrame s (addTexCoord A k x y s)"
  by (simp add: attrFrame_def addTexCoord_def)

lemma fold_fst_rel:
  assumes r: "\<And>s. R s s"
    and t: "\<And>a b c. R a b \<Longrightarrow> R b c \<Longrightarrow> R a c"
    and f: "\<And>x st. R (fst st) (fst (f x st))"
  shows "R (fst st) (fst (fold f xs st))"
proof (induction xs arbitrary: st)
  case Nil
  show ?case by (simp add: r)
next
  case (Cons x xs)
  have "R (fst st) (fst (f x st))" by (rule f)
  moreover have "R (fst (f x st)) (fst (fold f xs (f x st)))" by (rule Cons.IH)
  ultimately show ?case by (simp add: t)
qed

lemma attrFrame_smoothVertexBody:
  "attrFrame (fst st) (fst (smoothVertexBody A li ss xy z i j st))"
proof -
  obtain s ii jj where st: "st = (s, ii, jj)" by (cases st) auto
  have "attrFrame s (addTexCoord A jj sc tc (addNormal A ii nx ny nz (addVertex A ii x y z s)))"
    for x y nx ny nz sc tc
    by (rule attrFrame_trans [OF attrFrame_addVertex
          attrFrame_trans [OF attrFrame_addNormal attrFrame_addTexCoord]])
  then show ?thesis
    unfolding st smoothVertexBody_def Let_def by simp
qed

lemma attrFrame_smoothVertexRow:
  "attrFrame (fst st) (fst (smoothVertexRow A li ss sk i st))"
proof -
  obtain s ii jj where st: "st = (s, ii, jj)" by (cases st) auto
  have "attrFrame (fst (s, ii, jj)) (fst (fold (smoothVertexBody A li ss xy z i) js (s, ii, jj)))" for xy z js
    by (rule fold_fst_rel [where R = attrFrame]) (auto intro: attrFrame_refl attrFrame_trans attrFrame_smoothVertexBody)
  then show ?thesis
    unfolding st smoothVertexRow_def Let_def by simp
qed

lemma attrFrame_smoothVertexRows:
  "attrFrame (fst st) (fst (fold (smoothVertexRow A li ss sk) is st))"
  by (rule fold_fst_rel [where R = attrFrame]) (auto intro: attrFrame_refl attrFrame_trans attrFrame_smoothVertexRow)

lemma resizeArraysSmooth_ok:
  assumes "3 \<le> sectorCount s" "2 \<le> stackCount s"
  shows "resizeArraysSmooth A s =
         Inr (s\<lparr>vertices := zeros A (3 * nat ((sectorCount s + 1) * (stackCount s + 1))),
                normals := zeros A (3 * nat ((sectorCount s + 1) * (stackCount s + 1))),
                texCoords := zeros A (2 * nat ((sectorCount s + 1) * (stackCount s + 1))),
                indices := replicate (nat (6 * sectorCount s * (stackCount s - 1))) 0,
                interleavedVertices := []\<rparr>)"
proof -
  have c: "0 \<le> (sectorCount s + 1) * (stackCount s + 1)" using assms by simp
  have i: "0 \<le> sectorCount s * (stackCount s - 1)" using assms by simp
  have n3: "nat (3 * ((sectorCount s + 1) * (stackCount s + 1))) = 3 * nat ((sectorCount s + 1) * (stackCount s + 1))"
    using c by (simp add: nat_mult_distrib)
  have n2: "nat (2 * ((sectorCount s + 1) * (stackCount s + 1))) = 2 * nat ((sectorCount s + 1) * (stackCount s + 1))"
    using c by (simp add: nat_mult_distrib)
  have f3: "newFloat32Array A (3 * ((sectorCount s + 1) * (stackCount s + 1))) =
            Inr (zeros A (3 * nat ((sectorCount s + 1) * (stackCount s + 1))))"
    using c n3 by (simp add: newFloat32Array_def)
  have f2: "newFloat32Array A (2 * ((sectorCount s + 1) * (stackCount s + 1))) =
            Inr (zeros A (2 * nat ((sectorCount s + 1) * (stackCount s + 1))))"
    using c n2 by (simp add: newFloat32Array_def)
  have u: "newUint16Array (6 * sectorCount s * (stackCount s - 1)) =
           Inr (replicate (nat (6 * sectorCount s * (stackCount s - 1))) 0)"
    using i by (simp add: newUint16Array_def mult.assoc)
  show ?thesis
    by (simp add: resizeArraysSmooth_def clearArrays_def Let_def f3 f2 u)
qed

section \<open>The smooth build\<close>

lemma length_spec_smoothCell:
  "length (spec_smoothCell sec st i j) =
     (if i = 0 then 0 else 3) + (if int i = st - 1 then 0 else 3)"
  by (simp add: spec_smoothCell_def Let_def)

lemma length_spec_smoothRow:
  "length (spec_smoothRow sec st i) =
     nat sec * ((if i = 0 then 0 else 3) + (if int i = st - 1 then 0 else 3))"
  by (simp add: spec_smoothRow_def length_concat comp_def length_spec_smoothCell sum_list_triv)

lemma sum_list_ends:
  fixes g :: "nat \<Rightarrow> nat"
  assumes n: "2 \<le> n" and mid: "\<And>i. 0 < i \<Longrightarrow> i < n - 1 \<Longrightarrow> g i = c"
  shows "sum_list (map g [0..<n]) = g 0 + (n - 2) * c + g (n - 1)"
proof -
  obtain m where m: "n = Suc (Suc m)"
    using n by (metis add_2_eq_Suc le_Suc_ex)
  define xs where "xs = [Suc 0..<Suc m]"
  have split: "[0..<n] = 0 # xs @ [Suc m]"
    unfolding m xs_def by (simp add: upt_conv_Cons)
  have e: "map g xs = map (\<lambda>_. c) xs"
    by (rule map_cong) (auto simp: m xs_def intro: mid)
  have l: "length xs = m" by (simp add: xs_def)
  have "sum_list (map g xs) = m * c"
    unfolding e by (simp add: sum_list_triv l)
  then show ?thesis
    unfolding split by (simp add: m)
qed

lemma length_spec_smoothIndices:
  assumes "0 \<le> sec" "2 \<le> st"
  shows "length (spec_smoothIndices sec st) = nat (6 * sec * (st - 1))"
proof -
  let ?g = "\<lambda>i. length (spec_smoothRow sec st i)"
  have n: "2 \<le> nat st" using assms by simp
  have mid: "\<And>i. 0 < i \<Longrightarrow> i < nat st - 1 \<Longrightarrow> ?g i = nat sec * 6"
    by (auto simp: length_spec_smoothRow)
  have "length (spec_smoothIndices sec st) = sum_list (map ?g [0..<nat st])"
    by (simp add: spec_smoothIndices_def length_concat comp_def)
  also have "\<dots> = ?g 0 + (nat st - 2) * (nat sec * 6) + ?g (nat st - 1)"
    by (rule sum_list_ends [OF n mid])
  also have "?g 0 = nat sec * 3" using assms n by (simp add: length_spec_smoothRow)
  also have "?g (nat st - 1) = nat sec * 3" using assms n by (simp add: length_spec_smoothRow)
  also have "nat sec * 3 + (nat st - 2) * (nat sec * 6) + nat sec * 3 = 6 * nat sec * (nat st - 1)"
    using n by (simp add: algebra_simps diff_mult_distrib2)
  also have "\<dots> = nat (6 * sec * (st - 1))"
    using assms by (simp add: nat_mult_distrib nat_diff_distrib)
  finally show ?thesis .
qed

lemma buildVerticesSmooth_result:
  assumes sec: "3 \<le> sectorCount s0" and st: "2 \<le> stackCount s0"
  shows "\<exists>s2. buildVerticesSmooth A s0 = Inr (buildVbos (buildInterleavedVertices A s2)) \<and>
     s2 = s0\<lparr>vertices := vertices s2, normals := normals s2, texCoords := texCoords s2,
             indices := map word_of_int (spec_smoothIndices (sectorCount s0) (stackCount s0)),
             interleavedVertices := []\<rparr> \<and>
     length (vertices s2) = 3 * nat ((sectorCount s0 + 1) * (stackCount s0 + 1)) \<and>
     length (normals s2) = 3 * nat ((sectorCount s0 + 1) * (stackCount s0 + 1)) \<and>
     length (texCoords s2) = 2 * nat ((sectorCount s0 + 1) * (stackCount s0 + 1))"
proof -
  let ?c = "nat ((sectorCount s0 + 1) * (stackCount s0 + 1))"
  let ?init = "replicate (nat (6 * sectorCount s0 * (stackCount s0 - 1))) (0 :: 16 word)"
  let ?s = "s0\<lparr>vertices := zeros A (3 * ?c), normals := zeros A (3 * ?c),
                texCoords := zeros A (2 * ?c), indices := ?init, interleavedVertices := []\<rparr>"
  let ?li = "fdiv A (num A 1) (radius ?s)"
  let ?ss = "fdiv A (fmul A (num A 2) (mathPI A)) (num A (of_int (sectorCount ?s)))"
  let ?sk = "fdiv A (mathPI A) (num A (of_int (stackCount ?s)))"
  let ?W = "map word_of_int (spec_smoothIndices (sectorCount s0) (stackCount s0)) :: 16 word list"
  have rs: "resizeArraysSmooth A s0 = Inr ?s" by (rule resizeArraysSmooth_ok [OF sec st])
  obtain s1 ii jj where v: "fold (smoothVertexRow A ?li ?ss ?sk) (upToIncl (stackCount ?s)) (?s, 0, 0) = (s1, ii, jj)"
    by (metis prod_cases3)
  have fr: "attrFrame ?s s1"
    using attrFrame_smoothVertexRows [of "(?s, 0, 0)" A ?li ?ss ?sk "upToIncl (stackCount ?s)"] v by simp
  have s1: "s1 = ?s\<lparr>vertices := vertices s1, normals := normals s1, texCoords := texCoords s1\<rparr>"
    using fr by (simp add: attrFrame_def)
  have len: "length (vertices s1) = 3 * ?c" "length (normals s1) = 3 * ?c" "length (texCoords s1) = 2 * ?c"
    using fr by (simp_all add: attrFrame_def zeros_def)
  have cnt: "stackCount s1 = stackCount s0" "sectorCount s1 = sectorCount s0"
    by (subst s1, simp)+
  have s1w: "s1 = s1\<lparr>indices := written ?init []\<rparr>"
    by (subst (1 2) s1) (simp add: written_Nil)
  have "fold smoothIndexRow (upToExcl (stackCount s1)) (s1\<lparr>indices := written ?init []\<rparr>, length ([] :: 16 word list)) =
        (s1\<lparr>indices := written ?init ([] @ ?W)\<rparr>, length ([] @ ?W))"
    using smoothIndexRows_written [OF cnt, where init = ?init and W = "[]" and rows = "upToExcl (stackCount s1)"]
    by (simp add: spec_smoothIndices_def upToExcl_def cnt)
  moreover have "length ?W = length ?init"
    using length_spec_smoothIndices [of "sectorCount s0" "stackCount s0"] sec st by simp
  ultimately have ix: "fold smoothIndexRow (upToExcl (stackCount s1)) (s1, 0) = (s1\<lparr>indices := ?W\<rparr>, length ?W)"
    using s1w by (simp add: written_full)
  have b: "buildVerticesSmooth A s0 = Inr (buildVbos (buildInterleavedVertices A (s1\<lparr>indices := ?W\<rparr>)))"
    unfolding buildVerticesSmooth_def rs by (simp only: sum.case Let_def v ix prod.case)
  have e: "s1\<lparr>indices := ?W\<rparr> = s0\<lparr>vertices := vertices s1, normals := normals s1, texCoords := texCoords s1,
             indices := ?W, interleavedVertices := []\<rparr>"
    by (subst s1) simp
  show ?thesis
    apply (rule exI [of _ "s1\<lparr>indices := ?W\<rparr>"])
    using b e len by simp
qed

section \<open>The flat loops\<close>

lemma flatInv_addVertex: "flatInv s0 init W s \<Longrightarrow> flatInv s0 init W (addVertex A k x y z s)"
  unfolding flatInv_def by (erule attrFrame_trans) (rule attrFrame_addVertex)

lemma flatInv_addNormal: "flatInv s0 init W s \<Longrightarrow> flatInv s0 init W (addNormal A k x y z s)"
  unfolding flatInv_def by (erule attrFrame_trans) (rule attrFrame_addNormal)

lemma flatInv_addTexCoord: "flatInv s0 init W s \<Longrightarrow> flatInv s0 init W (addTexCoord A k x y s)"
  unfolding flatInv_def by (erule attrFrame_trans) (rule attrFrame_addTexCoord)

lemma flatInv_addIndices:
  assumes "flatInv s0 init W s" "kk = length W"
  shows "flatInv s0 init (W @ [word_of_int a, word_of_int b, word_of_int c]) (addIndices kk a b c s)"
proof -
  let ?W' = "W @ [word_of_int a, word_of_int b, word_of_int c :: 16 word]"
  have e: "s = (s0\<lparr>indices := written init W\<rparr>)\<lparr>vertices := vertices s, normals := normals s, texCoords := texCoords s\<rparr>"
    and l: "length (vertices s) = length (vertices s0)" "length (normals s) = length (normals s0)"
           "length (texCoords s) = length (texCoords s0)"
    using assms(1) by (simp_all add: flatInv_def attrFrame_def)
  have "indices s = written init W" by (subst e) simp
  then have "s = s\<lparr>indices := written init W\<rparr>" by simp
  then have "addIndices kk a b c s = addIndices kk a b c (s\<lparr>indices := written init W\<rparr>)" by simp
  also have "\<dots> = s\<lparr>indices := written init ?W'\<rparr>"
    by (rule addIndices_written [OF assms(2)])
  finally have a: "addIndices kk a b c s = s\<lparr>indices := written init ?W'\<rparr>" .
  have "s\<lparr>indices := written init ?W'\<rparr> =
        (s0\<lparr>indices := written init ?W'\<rparr>)\<lparr>vertices := vertices s, normals := normals s, texCoords := texCoords s\<rparr>"
    by (subst e) simp
  then show ?thesis
    unfolding a flatInv_def attrFrame_def using l by simp
qed

lemma putTriangle_ok:
  assumes "flatOK s0 init W idx st"
  shows "flatOK s0 init (W @ map word_of_int [idx, idx + 1, idx + 2]) (idx + 3)
           (putTriangle A a b c st)"
proof -
  obtain s ii jj kk index where st: "st = (s, ii, jj, kk, index)" by (cases st) auto
  have i: "flatInv s0 init W s" and k: "kk = length W" and x: "index = idx"
    using assms by (simp_all add: flatOK_def st)
  show ?thesis
    unfolding st putTriangle_def flatOK_def Let_def prod.case x
    apply (intro conjI)
      apply (simp only: list.map)
      apply (intro flatInv_addIndices flatInv_addNormal flatInv_addTexCoord flatInv_addVertex i k)
     apply (simp add: k)
    apply simp
    done
qed

lemma putQuad_ok:
  assumes "flatOK s0 init W idx st"
  shows "flatOK s0 init (W @ map word_of_int [idx, idx + 1, idx + 2, idx + 2, idx + 1, idx + 3])
           (idx + 4) (putQuad A a b c d st)"
proof -
  obtain s ii jj kk index where st: "st = (s, ii, jj, kk, index)" by (cases st) auto
  have i: "flatInv s0 init W s" and k: "kk = length W" and x: "index = idx"
    using assms by (simp_all add: flatOK_def st)
  let ?W1 = "W @ [word_of_int idx, word_of_int (idx + 1), word_of_int (idx + 2) :: 16 word]"
  have k3: "kk + 3 = length ?W1" using k by simp
  have e: "W @ map word_of_int [idx, idx + 1, idx + 2, idx + 2, idx + 1, idx + 3] =
           ?W1 @ [word_of_int (idx + 2), word_of_int (idx + 1), word_of_int (idx + 3)]"
    by simp
  show ?thesis
    unfolding st putQuad_def flatOK_def Let_def prod.case x e
    apply (intro conjI)
      apply (rule flatInv_addIndices [OF _ k3])
      apply (intro flatInv_addIndices flatInv_addNormal flatInv_addTexCoord flatInv_addVertex i k)
     apply (simp add: k)
    apply simp
    done
qed

lemma flatOK_stackCount: "flatOK s0 init W idx st \<Longrightarrow> stackCount (fst st) = stackCount s0"
proof -
  assume a: "flatOK s0 init W idx st"
  obtain s ii jj kk index where st: "st = (s, ii, jj, kk, index)" by (cases st) auto
  have e: "s = (s0\<lparr>indices := written init W\<rparr>)\<lparr>vertices := vertices s, normals := normals s, texCoords := texCoords s\<rparr>"
    using a by (simp add: flatOK_def st flatInv_def attrFrame_def)
  have "stackCount s = stackCount s0" by (subst e) simp
  then show ?thesis by (simp add: st)
qed

lemma flatOK_sectorCount: "flatOK s0 init W idx st \<Longrightarrow> sectorCount (fst st) = sectorCount s0"
proof -
  assume a: "flatOK s0 init W idx st"
  obtain s ii jj kk index where st: "st = (s, ii, jj, kk, index)" by (cases st) auto
  have e: "s = (s0\<lparr>indices := written init W\<rparr>)\<lparr>vertices := vertices s, normals := normals s, texCoords := texCoords s\<rparr>"
    using a by (simp add: flatOK_def st flatInv_def attrFrame_def)
  have "sectorCount s = sectorCount s0" by (subst e) simp
  then show ?thesis by (simp add: st)
qed

lemma tmpGet_in: "0 \<le> k \<Longrightarrow> k < int (length tmp) \<Longrightarrow> tmpGet tmp k = Some (tmp ! nat k)"
  by (simp add: tmpGet_def)

lemma flatBody_ok:
  assumes ok: "flatOK s0 init W idx st"
    and r: "0 \<le> vi1" "0 \<le> vi2" "vi1 + 1 < int (length tmp)" "vi2 + 1 < int (length tmp)"
  shows "\<exists>st'. flatBody A tmp i j (st, vi1, vi2) = Inr (st', vi1 + 1, vi2 + 1) \<and>
           flatOK s0 init (W @ map word_of_int (flatCellIndices (stackCount s0) i idx))
             (idx + int (flatCellVerts (stackCount s0) i)) st'"
proof -
  have g: "tmpGet tmp vi1 = Some (tmp ! nat vi1)" "tmpGet tmp vi2 = Some (tmp ! nat vi2)"
    "tmpGet tmp (vi1 + 1) = Some (tmp ! nat (vi1 + 1))" "tmpGet tmp (vi2 + 1) = Some (tmp ! nat (vi2 + 1))"
    using r by (simp_all add: tmpGet_in)
  have sc: "stackCount (fst st) = stackCount s0" by (rule flatOK_stackCount [OF ok])
  consider (first) "int i = 0" | (last) "int i \<noteq> 0" "int i = stackCount s0 - 1"
    | (mid) "int i \<noteq> 0" "int i \<noteq> stackCount s0 - 1" by blast
  then show ?thesis
  proof cases
    case first
    then show ?thesis
      using putTriangle_ok [OF ok, of A "tmp ! nat vi1" "tmp ! nat vi2" "tmp ! nat (vi2 + 1)"]
      by (simp add: flatBody_def g sc flatCellIndices_def flatCellVerts_def)
  next
    case last
    then show ?thesis
      using putTriangle_ok [OF ok, of A "tmp ! nat vi1" "tmp ! nat vi2" "tmp ! nat (vi1 + 1)"]
      by (simp add: flatBody_def g sc flatCellIndices_def flatCellVerts_def)
  next
    case mid
    then show ?thesis
      using putQuad_ok [OF ok, of A "tmp ! nat vi1" "tmp ! nat vi2" "tmp ! nat (vi1 + 1)" "tmp ! nat (vi2 + 1)"]
      by (simp add: flatBody_def g sc flatCellIndices_def flatCellVerts_def)
  qed
qed

lemma flatInner_ok:
  assumes "flatOK s0 init W idx st"
    and "0 \<le> vi1" "0 \<le> vi2" "vi1 + int (length js) < int (length tmp)"
        "vi2 + int (length js) < int (length tmp)"
  shows "\<exists>st'. foldE (flatBody A tmp i) js (st, vi1, vi2) =
                  Inr (st', vi1 + int (length js), vi2 + int (length js)) \<and>
           flatOK s0 init (W @ map word_of_int (flatRowIndices (stackCount s0) i idx (length js)))
             (idx + int (flatCellVerts (stackCount s0) i * length js)) st'"
  using assms
proof (induction js arbitrary: W idx st vi1 vi2)
  case Nil
  then show ?case by simp
next
  case (Cons j js)
  have r: "vi1 + 1 < int (length tmp)" "vi2 + 1 < int (length tmp)"
    using Cons.prems by simp_all
  obtain st1 where b: "flatBody A tmp i j (st, vi1, vi2) = Inr (st1, vi1 + 1, vi2 + 1)"
    and ok1: "flatOK s0 init (W @ map word_of_int (flatCellIndices (stackCount s0) i idx))
             (idx + int (flatCellVerts (stackCount s0) i)) st1"
    using flatBody_ok [OF Cons.prems(1-3) r] by blast
  have "\<exists>st'. foldE (flatBody A tmp i) js (st1, vi1 + 1, vi2 + 1) =
                  Inr (st', vi1 + 1 + int (length js), vi2 + 1 + int (length js)) \<and>
           flatOK s0 init ((W @ map word_of_int (flatCellIndices (stackCount s0) i idx)) @
                 map word_of_int (flatRowIndices (stackCount s0) i (idx + int (flatCellVerts (stackCount s0) i)) (length js)))
             (idx + int (flatCellVerts (stackCount s0) i) + int (flatCellVerts (stackCount s0) i * length js)) st'"
    using Cons.prems by (intro Cons.IH [OF ok1]) simp_all
  then obtain st' where f: "foldE (flatBody A tmp i) js (st1, vi1 + 1, vi2 + 1) =
                  Inr (st', vi1 + 1 + int (length js), vi2 + 1 + int (length js))"
    and ok': "flatOK s0 init ((W @ map word_of_int (flatCellIndices (stackCount s0) i idx)) @
                 map word_of_int (flatRowIndices (stackCount s0) i (idx + int (flatCellVerts (stackCount s0) i)) (length js)))
             (idx + int (flatCellVerts (stackCount s0) i) + int (flatCellVerts (stackCount s0) i * length js)) st'"
    by blast
  have w: "(W @ map word_of_int (flatCellIndices (stackCount s0) i idx)) @
                 map word_of_int (flatRowIndices (stackCount s0) i (idx + int (flatCellVerts (stackCount s0) i)) (length js)) =
           W @ map word_of_int (flatRowIndices (stackCount s0) i idx (length (j # js)))"
    by simp
  have x: "idx + int (flatCellVerts (stackCount s0) i) + int (flatCellVerts (stackCount s0) i * length js) =
           idx + int (flatCellVerts (stackCount s0) i * length (j # js))"
    by (simp add: algebra_simps)
  show ?case
    apply (rule exI [of _ st'])
    using b f ok' unfolding w x by (simp add: algebra_simps)
qed

lemma length_flatVertexBody_fold:
  "length (fold (flatVertexBody A s ss xy z i) js tmp) = length tmp + length js"
  by (induction js arbitrary: tmp) (simp_all add: flatVertexBody_def Let_def)

lemma length_flatVertexRow:
  "length (flatVertexRow A s ss sk i tmp) = length tmp + nat (sectorCount s + 1)"
  by (simp add: flatVertexRow_def Let_def length_flatVertexBody_fold upToIncl_def)

lemma length_flatVertexRows:
  "length (fold (flatVertexRow A s ss sk) rows tmp) =
     length tmp + length rows * nat (sectorCount s + 1)"
  by (induction rows arbitrary: tmp) (simp_all add: length_flatVertexRow)

lemma flatRow_ok:
  assumes ok: "flatOK s0 init W idx st"
    and i: "i < nat (stackCount s0)" and sec: "0 \<le> sectorCount s0"
    and len: "length tmp = nat (stackCount s0 + 1) * nat (sectorCount s0 + 1)"
  shows "\<exists>st'. flatRow A tmp i st = Inr st' \<and>
           flatOK s0 init
             (W @ map word_of_int (flatRowIndices (stackCount s0) i idx (nat (sectorCount s0))))
             (idx + int (flatCellVerts (stackCount s0) i * nat (sectorCount s0))) st'"
proof -
  let ?sec = "sectorCount s0" and ?stc = "stackCount s0"
  let ?vi1 = "int i * (?sec + 1)" and ?vi2 = "(int i + 1) * (?sec + 1)"
  have sc: "sectorCount (fst st) = ?sec" by (rule flatOK_sectorCount [OF ok])
  have L: "int (length tmp) = (?stc + 1) * (?sec + 1)"
    using i sec unfolding len by (simp add: nat_mult_distrib [symmetric])
  have "(int i + 2) * (?sec + 1) \<le> (?stc + 1) * (?sec + 1)"
    using i sec by (intro mult_right_mono) auto
  then have top: "?vi2 + ?sec < int (length tmp)"
    unfolding L by (simp add: algebra_simps)
  have "?vi1 \<le> ?vi2" using sec by (simp add: algebra_simps)
  then have top1: "?vi1 + ?sec < int (length tmp)" using top by simp
  have n1: "0 \<le> ?vi1" and n2: "0 \<le> ?vi2" using sec by simp_all
  have lj: "int (length (upToExcl ?sec)) = ?sec" using sec by (simp add: upToExcl_def)
  obtain st' where f: "foldE (flatBody A tmp i) (upToExcl ?sec) (st, ?vi1, ?vi2) =
        Inr (st', ?vi1 + int (length (upToExcl ?sec)), ?vi2 + int (length (upToExcl ?sec)))"
    and ok': "flatOK s0 init (W @ map word_of_int (flatRowIndices ?stc i idx (length (upToExcl ?sec))))
             (idx + int (flatCellVerts ?stc i * length (upToExcl ?sec))) st'"
    using flatInner_ok [OF ok n1 n2, of "upToExcl ?sec" tmp A i] top top1 unfolding lj by blast
  have ln: "length (upToExcl ?sec) = nat ?sec" by (simp add: upToExcl_def)
  show ?thesis
    apply (rule exI [of _ st'])
    using f ok' unfolding ln by (simp add: flatRow_def sc Let_def)
qed

lemma flatRows_ok:
  assumes "flatOK s0 init W idx st"
    and "\<forall>i\<in>set rows. i < nat (stackCount s0)" and sec: "0 \<le> sectorCount s0"
    and len: "length tmp = nat (stackCount s0 + 1) * nat (sectorCount s0 + 1)"
  shows "\<exists>st'. foldE (flatRow A tmp) rows st = Inr st' \<and>
           flatOK s0 init
             (W @ map word_of_int (flatIndices (sectorCount s0) (stackCount s0) rows idx))
             (idx + int (sum_list (map (\<lambda>i. flatCellVerts (stackCount s0) i * nat (sectorCount s0)) rows)))
             st'"
  using assms(1,2)
proof (induction rows arbitrary: W idx st)
  case Nil
  then show ?case by simp
next
  case (Cons i rows)
  let ?sec = "sectorCount s0" and ?stc = "stackCount s0"
  let ?W1 = "W @ map word_of_int (flatRowIndices ?stc i idx (nat ?sec))"
  let ?x1 = "idx + int (flatCellVerts ?stc i * nat ?sec)"
  have i: "i < nat ?stc" and rest: "\<forall>i\<in>set rows. i < nat ?stc" using Cons.prems(2) by simp_all
  obtain st1 where r: "flatRow A tmp i st = Inr st1" and ok1: "flatOK s0 init ?W1 ?x1 st1"
    using flatRow_ok [OF Cons.prems(1) i sec len] by blast
  obtain st' where f: "foldE (flatRow A tmp) rows st1 = Inr st'"
    and ok': "flatOK s0 init (?W1 @ map word_of_int (flatIndices ?sec ?stc rows ?x1))
             (?x1 + int (sum_list (map (\<lambda>i. flatCellVerts ?stc i * nat ?sec) rows))) st'"
    using Cons.IH [OF ok1 rest] by blast
  have w: "?W1 @ map word_of_int (flatIndices ?sec ?stc rows ?x1) =
           W @ map word_of_int (flatIndices ?sec ?stc (i # rows) idx)" by simp
  have x: "?x1 + int (sum_list (map (\<lambda>i. flatCellVerts ?stc i * nat ?sec) rows)) =
           idx + int (sum_list (map (\<lambda>i. flatCellVerts ?stc i * nat ?sec) (i # rows)))" by simp
  show ?case
    apply (rule exI [of _ st'])
    using r f ok' unfolding w x by simp
qed

lemma length_flatRowIndices:
  "length (flatRowIndices st i idx n) = n * (if int i = 0 \<or> int i = st - 1 then 3 else 6)"
  by (induction n arbitrary: idx) (simp_all add: flatCellIndices_def)

lemma length_flatIndices:
  "length (flatIndices sec st rows idx) =
     sum_list (map (\<lambda>i. nat sec * (if int i = 0 \<or> int i = st - 1 then 3 else 6)) rows)"
  by (induction rows arbitrary: idx) (simp_all add: length_flatRowIndices)

lemma length_flatIndices_all:
  assumes "0 \<le> sec" "2 \<le> st"
  shows "length (flatIndices sec st [0..<nat st] 0) = nat (6 * sec * (st - 1))"
proof -
  let ?g = "\<lambda>i. nat sec * (if int i = 0 \<or> int i = st - 1 then 3 else 6)"
  have n: "2 \<le> nat st" using assms by simp
  have mid: "\<And>i. 0 < i \<Longrightarrow> i < nat st - 1 \<Longrightarrow> ?g i = nat sec * 6" by auto
  have "length (flatIndices sec st [0..<nat st] 0) = sum_list (map ?g [0..<nat st])"
    by (rule length_flatIndices)
  also have "\<dots> = ?g 0 + (nat st - 2) * (nat sec * 6) + ?g (nat st - 1)"
    by (rule sum_list_ends [OF n mid])
  also have "?g 0 = nat sec * 3" by simp
  also have "?g (nat st - 1) = nat sec * 3" using assms n by simp
  also have "nat sec * 3 + (nat st - 2) * (nat sec * 6) + nat sec * 3 = 6 * nat sec * (nat st - 1)"
    using n by (simp add: algebra_simps diff_mult_distrib2)
  also have "\<dots> = nat (6 * sec * (st - 1))"
    using assms by (simp add: nat_mult_distrib nat_diff_distrib)
  finally show ?thesis .
qed

lemma flatVerts_all:
  assumes "0 \<le> sec" "2 \<le> st"
  shows "sum_list (map (\<lambda>i. flatCellVerts st i * nat sec) [0..<nat st]) =
         nat (6 * sec + 4 * sec * (st - 2))"
proof -
  let ?g = "\<lambda>i. flatCellVerts st i * nat sec"
  have n: "2 \<le> nat st" using assms by simp
  have mid: "\<And>i. 0 < i \<Longrightarrow> i < nat st - 1 \<Longrightarrow> ?g i = 4 * nat sec"
    by (auto simp: flatCellVerts_def)
  have "sum_list (map ?g [0..<nat st]) = ?g 0 + (nat st - 2) * (4 * nat sec) + ?g (nat st - 1)"
    by (rule sum_list_ends [OF n mid])
  also have "?g 0 = 3 * nat sec" by (simp add: flatCellVerts_def)
  also have "?g (nat st - 1) = 3 * nat sec" using assms n by (simp add: flatCellVerts_def)
  also have "3 * nat sec + (nat st - 2) * (4 * nat sec) + 3 * nat sec =
             nat (6 * sec + 4 * sec * (st - 2))"
  proof -
    have "int (3 * nat sec + (nat st - 2) * (4 * nat sec) + 3 * nat sec) = 6 * sec + 4 * sec * (st - 2)"
      using assms n by (simp add: algebra_simps)
    then show ?thesis by linarith
  qed
  finally show ?thesis .
qed

lemma set_flatRowIndices:
  "x \<in> set (flatRowIndices st i idx n) \<Longrightarrow> idx \<le> x \<and> x < idx + int (flatCellVerts st i * n)"
proof (induction n arbitrary: idx)
  case 0
  then show ?case by simp
next
  case (Suc n)
  from Suc.prems have "x \<in> set (flatCellIndices st i idx) \<or>
      x \<in> set (flatRowIndices st i (idx + int (flatCellVerts st i)) n)" by simp
  then show ?case
  proof
    assume "x \<in> set (flatCellIndices st i idx)"
    then have "idx \<le> x \<and> x < idx + int (flatCellVerts st i)"
      by (auto simp: flatCellIndices_def flatCellVerts_def split: if_splits)
    moreover have "int (flatCellVerts st i * Suc n) =
        int (flatCellVerts st i) + int (flatCellVerts st i * n)" by simp
    moreover have "0 \<le> int (flatCellVerts st i * n)" by simp
    ultimately show ?thesis by linarith
  next
    assume "x \<in> set (flatRowIndices st i (idx + int (flatCellVerts st i)) n)"
    from Suc.IH [OF this]
    have "idx + int (flatCellVerts st i) \<le> x \<and>
          x < idx + int (flatCellVerts st i) + int (flatCellVerts st i * n)" .
    moreover have "int (flatCellVerts st i * Suc n) =
        int (flatCellVerts st i) + int (flatCellVerts st i * n)" by simp
    ultimately show ?thesis by linarith
  qed
qed

lemma set_flatIndices:
  "x \<in> set (flatIndices sec st rows idx) \<Longrightarrow>
     idx \<le> x \<and> x < idx + int (sum_list (map (\<lambda>i. flatCellVerts st i * nat sec) rows))"
proof (induction rows arbitrary: idx)
  case Nil
  then show ?case by simp
next
  case (Cons i rows)
  from Cons.prems have "x \<in> set (flatRowIndices st i idx (nat sec)) \<or>
      x \<in> set (flatIndices sec st rows (idx + int (flatCellVerts st i * nat sec)))" by simp
  then show ?case
  proof
    assume "x \<in> set (flatRowIndices st i idx (nat sec))"
    from set_flatRowIndices [OF this]
    have "idx \<le> x \<and> x < idx + int (flatCellVerts st i * nat sec)" .
    moreover have "int (sum_list (map (\<lambda>i. flatCellVerts st i * nat sec) (i # rows))) =
        int (flatCellVerts st i * nat sec) + int (sum_list (map (\<lambda>i. flatCellVerts st i * nat sec) rows))"
      by simp
    ultimately show ?thesis by linarith
  next
    assume "x \<in> set (flatIndices sec st rows (idx + int (flatCellVerts st i * nat sec)))"
    from Cons.IH [OF this]
    have "idx + int (flatCellVerts st i * nat sec) \<le> x \<and>
          x < idx + int (flatCellVerts st i * nat sec) +
              int (sum_list (map (\<lambda>i. flatCellVerts st i * nat sec) rows))" .
    moreover have "int (sum_list (map (\<lambda>i. flatCellVerts st i * nat sec) (i # rows))) =
        int (flatCellVerts st i * nat sec) + int (sum_list (map (\<lambda>i. flatCellVerts st i * nat sec) rows))"
      by simp
    ultimately show ?thesis by linarith
  qed
qed

section \<open>The flat build\<close>

lemma resizeArraysFlat_ok:
  assumes "3 \<le> sectorCount s" "2 \<le> stackCount s"
  shows "resizeArraysFlat A s =
         Inr (s\<lparr>vertices := zeros A (3 * nat (6 * sectorCount s + 4 * sectorCount s * (stackCount s - 2))),
                normals := zeros A (3 * nat (6 * sectorCount s + 4 * sectorCount s * (stackCount s - 2))),
                texCoords := zeros A (2 * nat (6 * sectorCount s + 4 * sectorCount s * (stackCount s - 2))),
                indices := replicate (nat (6 * sectorCount s * (stackCount s - 1))) 0,
                interleavedVertices := []\<rparr>)"
proof -
  let ?c = "6 * sectorCount s + 4 * sectorCount s * (stackCount s - 2)"
  have "0 \<le> sectorCount s * (stackCount s - 2)" using assms by simp
  then have c: "0 \<le> ?c" using assms by simp
  have i: "0 \<le> sectorCount s * (stackCount s - 1)" using assms by simp
  have n3: "nat (3 * ?c) = 3 * nat ?c" using c by (simp add: nat_mult_distrib)
  have n2: "nat (2 * ?c) = 2 * nat ?c" using c by (simp add: nat_mult_distrib)
  have f3: "newFloat32Array A (3 * ?c) = Inr (zeros A (3 * nat ?c))"
    using c unfolding newFloat32Array_def n3 by simp
  have f2: "newFloat32Array A (2 * ?c) = Inr (zeros A (2 * nat ?c))"
    using c unfolding newFloat32Array_def n2 by simp
  have u: "newUint16Array (6 * sectorCount s * (stackCount s - 1)) =
           Inr (replicate (nat (6 * sectorCount s * (stackCount s - 1))) 0)"
    using i by (simp add: newUint16Array_def mult.assoc)
  have sc: "sectorCount (clearArrays s) = sectorCount s" "stackCount (clearArrays s) = stackCount s"
    by (simp_all add: clearArrays_def)
  show ?thesis
    unfolding resizeArraysFlat_def Let_def sc f3 f2 u sum.case
    by (simp add: clearArrays_def)
qed

lemma buildVerticesFlat_result:
  assumes sec: "3 \<le> sectorCount s0" and st: "2 \<le> stackCount s0"
  shows "\<exists>s1. buildVerticesFlat A s0 = Inr (buildVbos (buildInterleavedVertices A s1)) \<and>
     s1 = s0\<lparr>vertices := vertices s1, normals := normals s1, texCoords := texCoords s1,
             indices := map word_of_int
                (flatIndices (sectorCount s0) (stackCount s0) [0..<nat (stackCount s0)] 0),
             interleavedVertices := []\<rparr> \<and>
     length (vertices s1) = 3 * nat (6 * sectorCount s0 + 4 * sectorCount s0 * (stackCount s0 - 2)) \<and>
     length (normals s1) = 3 * nat (6 * sectorCount s0 + 4 * sectorCount s0 * (stackCount s0 - 2)) \<and>
     length (texCoords s1) = 2 * nat (6 * sectorCount s0 + 4 * sectorCount s0 * (stackCount s0 - 2))"
proof -
  let ?c = "nat (6 * sectorCount s0 + 4 * sectorCount s0 * (stackCount s0 - 2))"
  let ?init = "replicate (nat (6 * sectorCount s0 * (stackCount s0 - 1))) (0 :: 16 word)"
  let ?s = "s0\<lparr>vertices := zeros A (3 * ?c), normals := zeros A (3 * ?c),
                texCoords := zeros A (2 * ?c), indices := ?init, interleavedVertices := []\<rparr>"
  let ?ss = "fdiv A (fmul A (num A 2) (mathPI A)) (num A (of_int (sectorCount s0)))"
  let ?sk = "fdiv A (mathPI A) (num A (of_int (stackCount s0)))"
  let ?tmp = "fold (flatVertexRow A s0 ?ss ?sk) (upToIncl (stackCount s0)) []"
  let ?E = "flatIndices (sectorCount s0) (stackCount s0) [0..<nat (stackCount s0)] 0"
  let ?W = "map word_of_int ?E :: 16 word list"
  have rs: "resizeArraysFlat A s0 = Inr ?s" by (rule resizeArraysFlat_ok [OF sec st])
  have cnt: "stackCount ?s = stackCount s0" "sectorCount ?s = sectorCount s0" by simp_all
  have len: "length ?tmp = nat (stackCount ?s + 1) * nat (sectorCount ?s + 1)"
    by (simp add: length_flatVertexRows upToIncl_def)
  have "?s\<lparr>indices := written ?init []\<rparr> = ?s" by (simp add: written_Nil)
  then have "flatInv ?s ?init [] ?s"
    unfolding flatInv_def by (simp only: attrFrame_refl)
  then have ok0: "flatOK ?s ?init [] 0 (?s, 0, 0, 0, 0)"
    by (simp only: flatOK_def prod.case list.size)
  have rows: "\<forall>i\<in>set (upToExcl (stackCount ?s)). i < nat (stackCount ?s)"
    by (simp add: upToExcl_def)
  have sec0: "0 \<le> sectorCount ?s" using sec by simp
  obtain st' where f: "foldE (flatRow A ?tmp) (upToExcl (stackCount ?s)) (?s, 0, 0, 0, 0) = Inr st'"
    and ok': "flatOK ?s ?init ([] @ map word_of_int
                 (flatIndices (sectorCount ?s) (stackCount ?s) (upToExcl (stackCount ?s)) 0))
               (0 + int (sum_list (map (\<lambda>i. flatCellVerts (stackCount ?s) i * nat (sectorCount ?s))
                    (upToExcl (stackCount ?s))))) st'"
    using flatRows_ok [OF ok0 rows sec0 len] by blast
  obtain s1 ii jj kk index where st': "st' = (s1, ii, jj, kk, index)" by (cases st') auto
  have lw: "length ?W = length ?init"
    using length_flatIndices_all [of "sectorCount s0" "stackCount s0"] sec st by simp
  have fr: "attrFrame (?s\<lparr>indices := ?W\<rparr>) s1"
    using ok' lw unfolding st' flatOK_def flatInv_def
    by (simp add: upToExcl_def written_full)
  have s1: "s1 = (?s\<lparr>indices := ?W\<rparr>)\<lparr>vertices := vertices s1, normals := normals s1,
                                          texCoords := texCoords s1\<rparr>"
    using fr by (simp add: attrFrame_def)
  have l: "length (vertices s1) = 3 * ?c" "length (normals s1) = 3 * ?c" "length (texCoords s1) = 2 * ?c"
    using fr by (simp_all add: attrFrame_def zeros_def)
  have b: "buildVerticesFlat A s0 = Inr (buildVbos (buildInterleavedVertices A s1))"
    unfolding buildVerticesFlat_def Let_def rs sum.case f [unfolded st'] prod.case ..
  have e: "s1 = s0\<lparr>vertices := vertices s1, normals := normals s1, texCoords := texCoords s1,
             indices := ?W, interleavedVertices := []\<rparr>"
    by (subst s1) simp
  show ?thesis
    apply (rule exI [of _ s1])
    using b e l by simp
qed

section \<open>Interleaving\<close>

lemma take_store8:
  assumes "k + 8 \<le> length out"
  shows "take (k + 8) (out[k := a0, k + 1 := a1, k + 2 := a2, k + 3 := a3,
                            k + 4 := a4, k + 5 := a5, k + 6 := a6, k + 7 := a7]) =
         take k out @ [a0, a1, a2, a3, a4, a5, a6, a7]"
proof (rule nth_equalityI)
  show "length (take (k + 8) (out[k := a0, k + 1 := a1, k + 2 := a2, k + 3 := a3,
                            k + 4 := a4, k + 5 := a5, k + 6 := a6, k + 7 := a7])) =
        length (take k out @ [a0, a1, a2, a3, a4, a5, a6, a7])"
    using assms by simp
next
  fix i
  assume "i < length (take (k + 8) (out[k := a0, k + 1 := a1, k + 2 := a2, k + 3 := a3,
                            k + 4 := a4, k + 5 := a5, k + 6 := a6, k + 7 := a7]))"
  then have i: "i < k + 8" by simp
  consider "i < k" | "i = k" | "i = k + 1" | "i = k + 2" | "i = k + 3" | "i = k + 4"
    | "i = k + 5" | "i = k + 6" | "i = k + 7" using i by linarith
  then show "take (k + 8) (out[k := a0, k + 1 := a1, k + 2 := a2, k + 3 := a3,
                            k + 4 := a4, k + 5 := a5, k + 6 := a6, k + 7 := a7]) ! i =
             (take k out @ [a0, a1, a2, a3, a4, a5, a6, a7]) ! i"
    using assms by cases (simp_all add: nth_append)
qed

lemma interleaveLoop_closed:
  assumes ex: "f32_exact A"
    and lv: "length vs = 3 * n" and ln: "length ns = 3 * n" and lt: "length ts = 2 * n"
    and lo: "length out = 8 * n" and mn: "m \<le> n"
  shows "interleaveLoop A vs ns ts (3 * m) (2 * m) (8 * m) out =
         take (8 * m) out @ concat (map (record8 vs ns ts) [m..<n])"
  using lo mn
proof (induction "n - m" arbitrary: m out)
  case 0
  then have m: "m = n" by simp
  have "interleaveLoop A vs ns ts (3 * n) (2 * n) (8 * n) out = out"
    by (subst interleaveLoop.simps) (simp add: lv)
  then show ?case
    using "0.prems" by (simp add: m)
next
  case (Suc d)
  then have mn: "m < n" and d: "d = n - Suc m" by simp_all
  let ?r = "record8 vs ns ts m"
  let ?out' = "out[8 * m := vs ! (3 * m), 8 * m + 1 := vs ! (3 * m + 1), 8 * m + 2 := vs ! (3 * m + 2),
                   8 * m + 3 := ns ! (3 * m), 8 * m + 4 := ns ! (3 * m + 1), 8 * m + 5 := ns ! (3 * m + 2),
                   8 * m + 6 := ts ! (2 * m), 8 * m + 7 := ts ! (2 * m + 1)]"
  have rt: "toF32 A (toD A x) = x" for x using ex by (simp add: f32_exact_def)
  have g: "toF32 A (getF A vs (3 * m)) = vs ! (3 * m)"
          "toF32 A (getF A vs (3 * m + 1)) = vs ! (3 * m + 1)"
          "toF32 A (getF A vs (3 * m + 2)) = vs ! (3 * m + 2)"
          "toF32 A (getF A ns (3 * m)) = ns ! (3 * m)"
          "toF32 A (getF A ns (3 * m + 1)) = ns ! (3 * m + 1)"
          "toF32 A (getF A ns (3 * m + 2)) = ns ! (3 * m + 2)"
          "toF32 A (getF A ts (2 * m)) = ts ! (2 * m)"
          "toF32 A (getF A ts (2 * m + 1)) = ts ! (2 * m + 1)"
    using mn by (simp_all add: getF_def lv ln lt rt)
  have lo': "length ?out' = 8 * n" using Suc.prems by simp
  have k8: "8 * m + 8 \<le> length out" using mn Suc.prems by simp
  have c: "3 * m < length vs" using mn lv by simp
  have "interleaveLoop A vs ns ts (3 * m) (2 * m) (8 * m) out =
        interleaveLoop A vs ns ts (3 * m + 3) (2 * m + 2) (8 * m + 8) ?out'"
    by (subst interleaveLoop.simps) (simp only: c if_True g)
  also have "\<dots> = interleaveLoop A vs ns ts (3 * Suc m) (2 * Suc m) (8 * Suc m) ?out'"
    by (simp add: algebra_simps)
  also have "\<dots> = take (8 * Suc m) ?out' @ concat (map (record8 vs ns ts) [Suc m..<n])"
    using mn by (intro Suc.hyps(1) [OF d lo']) simp
  also have "take (8 * Suc m) ?out' = take (8 * m + 8) ?out'" by (simp add: algebra_simps)
  also have "\<dots> = take (8 * m) out @ ?r"
    unfolding record8_def by (rule take_store8 [OF k8])
  finally show ?case
    using mn by (simp add: upt_rec [of m n])
qed

lemma nth_concat_record8:
  assumes "v < n" "c < 8"
  shows "concat (map (record8 vs ns ts) [0..<n]) ! (8 * v + c) = record8 vs ns ts v ! c"
  using assms(1)
proof (induction n)
  case 0
  then show ?case by simp
next
  case (Suc n)
  have len: "length (concat (map (record8 vs ns ts) [0..<n])) = 8 * n"
    by (induction n) (simp_all add: record8_def)
  show ?case
  proof (cases "v < n")
    case True
    then have "8 * v + c < 8 * n" using assms(2) by simp
    then show ?thesis using Suc.IH [OF True] by (simp add: nth_append len)
  next
    case False
    then have "v = n" using Suc.prems by simp
    then show ?thesis by (simp add: nth_append len)
  qed
qed

lemma buildInterleavedVertices_closed:
  assumes ex: "f32_exact A"
    and lv: "length (vertices s) = 3 * n" and ln: "length (normals s) = 3 * n"
    and lt: "length (texCoords s) = 2 * n"
  shows "buildInterleavedVertices A s =
         s\<lparr>interleavedVertices :=
             concat (map (record8 (vertices s) (normals s) (texCoords s)) [0..<n])\<rparr>"
proof -
  have "getVertexCount s * 8 = of_nat (8 * n)"
    by (simp add: getVertexCount_def lv)
  then have "nat \<lfloor>getVertexCount s * 8\<rfloor> = 8 * n"
    by (simp only: floor_of_nat nat_int)
  then have lo: "length (zeros A (nat \<lfloor>getVertexCount s * 8\<rfloor>)) = 8 * n"
    by (simp add: zeros_def)
  show ?thesis
    using interleaveLoop_closed [OF ex lv ln lt lo, of 0]
    by (simp add: buildInterleavedVertices_def Let_def)
qed

section \<open>The attribute arrays, closed forms\<close>

lemma written_store2:
  "k = length W \<Longrightarrow> (written init W)[k := a, k + 1 := b] = written init (W @ [a, b])"
proof -
  assume k: "k = length W"
  have 1: "(written init W)[length W := a] = written init (W @ [a])" by (rule written_store)
  have 2: "(written init (W @ [a]))[length (W @ [a]) := b] = written init ((W @ [a]) @ [b])"
    by (rule written_store)
  show ?thesis using 1 2 k by simp
qed

lemma filled_Nil: "filled s0 [] [] [] = s0"
  by (simp add: filled_def written_Nil)

lemma filled_fields:
  "sectorCount (filled s0 V N T) = sectorCount s0" "stackCount (filled s0 V N T) = stackCount s0"
  "radius (filled s0 V N T) = radius s0" "indices (filled s0 V N T) = indices s0"
  by (simp_all add: filled_def)

lemma addVertex_filled:
  "k = length V \<Longrightarrow>
   addVertex A k x y z (filled s0 V N T) = filled s0 (V @ [toF32 A x, toF32 A y, toF32 A z]) N T"
  using written_store3 [of k V "vertices s0" "toF32 A x" "toF32 A y" "toF32 A z"]
  by (simp add: addVertex_def filled_def)

lemma addNormal_filled:
  "k = length N \<Longrightarrow>
   addNormal A k x y z (filled s0 V N T) = filled s0 V (N @ [toF32 A x, toF32 A y, toF32 A z]) T"
  using written_store3 [of k N "normals s0" "toF32 A x" "toF32 A y" "toF32 A z"]
  by (simp add: addNormal_def filled_def)

lemma addTexCoord_filled:
  "k = length T \<Longrightarrow>
   addTexCoord A k x y (filled s0 V N T) = filled s0 V N (T @ [toF32 A x, toF32 A y])"
  using written_store2 [of k T "texCoords s0" "toF32 A x" "toF32 A y"]
  by (simp add: addTexCoord_def filled_def)

lemma smoothVertexBody_filled:
  assumes "length N = length V" "sectorCount s0 = sec" "stackCount s0 = st"
  shows "smoothVertexBody A li ss xy z i j (filled s0 V N T, length V, length T) =
         (filled s0 (V @ store3 A (loopVertex A ss xy z j))
                    (N @ store3 A (loopNormal A li (loopVertex A ss xy z j)))
                    (T @ store2 A (spec_texCoord A sec st i j)),
          length (V @ store3 A (loopVertex A ss xy z j)),
          length (T @ store2 A (spec_texCoord A sec st i j)))"
  using assms
  by (simp add: smoothVertexBody_def Let_def addVertex_filled addNormal_filled addTexCoord_filled
        filled_fields store3_def store2_def loopVertex_def loopNormal_def spec_texCoord_def)

lemma smoothVertexInner_filled:
  assumes "length N = length V" "sectorCount s0 = sec" "stackCount s0 = st"
  shows "fold (smoothVertexBody A li ss xy z i) js (filled s0 V N T, length V, length T) =
         (filled s0 (V @ concat (map (\<lambda>j. store3 A (loopVertex A ss xy z j)) js))
                    (N @ concat (map (\<lambda>j. store3 A (loopNormal A li (loopVertex A ss xy z j))) js))
                    (T @ concat (map (\<lambda>j. store2 A (spec_texCoord A sec st i j)) js)),
          length (V @ concat (map (\<lambda>j. store3 A (loopVertex A ss xy z j)) js)),
          length (T @ concat (map (\<lambda>j. store2 A (spec_texCoord A sec st i j)) js)))"
  using assms(1)
proof (induction js arbitrary: V N T)
  case Nil
  then show ?case by simp
next
  case (Cons j js)
  let ?V = "V @ store3 A (loopVertex A ss xy z j)"
  let ?N = "N @ store3 A (loopNormal A li (loopVertex A ss xy z j))"
  let ?T = "T @ store2 A (spec_texCoord A sec st i j)"
  have l: "length ?N = length ?V"
    using Cons.prems by (simp add: store3_def loopNormal_def loopVertex_def)
  have "fold (smoothVertexBody A li ss xy z i) (j # js) (filled s0 V N T, length V, length T) =
        fold (smoothVertexBody A li ss xy z i) js (filled s0 ?V ?N ?T, length ?V, length ?T)"
    by (simp only: fold_simps smoothVertexBody_filled [OF Cons.prems assms(2,3)])
  also have "\<dots> =
         (filled s0 (?V @ concat (map (\<lambda>j. store3 A (loopVertex A ss xy z j)) js))
                    (?N @ concat (map (\<lambda>j. store3 A (loopNormal A li (loopVertex A ss xy z j))) js))
                    (?T @ concat (map (\<lambda>j. store2 A (spec_texCoord A sec st i j)) js)),
          length (?V @ concat (map (\<lambda>j. store3 A (loopVertex A ss xy z j)) js)),
          length (?T @ concat (map (\<lambda>j. store2 A (spec_texCoord A sec st i j)) js)))"
    by (rule Cons.IH [OF l])
  finally show ?case by simp
qed

lemma smoothVertexRow_filled:
  assumes l: "length N = length V"
    and c: "sectorCount s0 = sec" "stackCount s0 = st" and r: "radius s0 = r"
  shows "smoothVertexRow A (fdiv A (num A 1) r)
           (fdiv A (fmul A (num A 2) (mathPI A)) (num A (of_int sec)))
           (fdiv A (mathPI A) (num A (of_int st))) i
           (filled s0 V N T, length V, length T) =
         (filled s0
            (V @ concat (map (\<lambda>j. store3 A (spec_position A r sec st i j)) (upToIncl sec)))
            (N @ concat (map (\<lambda>j. store3 A (spec_normal A r sec st i j)) (upToIncl sec)))
            (T @ concat (map (\<lambda>j. store2 A (spec_texCoord A sec st i j)) (upToIncl sec))),
          length (V @ concat (map (\<lambda>j. store3 A (spec_position A r sec st i j)) (upToIncl sec))),
          length (T @ concat (map (\<lambda>j. store2 A (spec_texCoord A sec st i j)) (upToIncl sec))))"
proof -
  let ?ss = "fdiv A (fmul A (num A 2) (mathPI A)) (num A (of_int sec))"
  let ?sa = "fsub A (fdiv A (mathPI A) (num A 2))
               (fmul A (num A (of_nat i)) (fdiv A (mathPI A) (num A (of_int st))))"
  let ?xy = "fmul A r (fcos A ?sa)" and ?z = "fmul A r (fsin A ?sa)"
  let ?li = "fdiv A (num A 1) r"
  have p: "loopVertex A ?ss ?xy ?z j = spec_position A r sec st i j" for j
    by (simp add: loopVertex_def spec_position_def Let_def)
  have n: "loopNormal A ?li (spec_position A r sec st i j) = spec_normal A r sec st i j" for j
    by (simp add: loopNormal_def spec_normal_def Let_def split: prod.splits)
  have "smoothVertexRow A ?li ?ss (fdiv A (mathPI A) (num A (of_int st))) i
           (filled s0 V N T, length V, length T) =
        fold (smoothVertexBody A ?li ?ss ?xy ?z i) (upToIncl sec)
           (filled s0 V N T, length V, length T)"
    by (simp add: smoothVertexRow_def Let_def filled_fields c r)
  also have "\<dots> =
         (filled s0 (V @ concat (map (\<lambda>j. store3 A (loopVertex A ?ss ?xy ?z j)) (upToIncl sec)))
                    (N @ concat (map (\<lambda>j. store3 A (loopNormal A ?li (loopVertex A ?ss ?xy ?z j))) (upToIncl sec)))
                    (T @ concat (map (\<lambda>j. store2 A (spec_texCoord A sec st i j)) (upToIncl sec))),
          length (V @ concat (map (\<lambda>j. store3 A (loopVertex A ?ss ?xy ?z j)) (upToIncl sec))),
          length (T @ concat (map (\<lambda>j. store2 A (spec_texCoord A sec st i j)) (upToIncl sec))))"
    by (rule smoothVertexInner_filled [OF l c])
  finally show ?thesis unfolding p n .
qed

lemma length_store3_row:
  "length (concat (map (\<lambda>j. store3 A (f j)) js)) = 3 * length js"
  by (induction js) (simp_all add: store3_def split: prod.splits)

lemma length_store2_row:
  "length (concat (map (\<lambda>j. store2 A (f j)) js)) = 2 * length js"
  by (induction js) (simp_all add: store2_def split: prod.splits)

lemma smoothVertexRows_filled:
  assumes l: "length N = length V"
    and c: "sectorCount s0 = sec" "stackCount s0 = st" and r: "radius s0 = r"
  shows "fold (smoothVertexRow A (fdiv A (num A 1) r)
           (fdiv A (fmul A (num A 2) (mathPI A)) (num A (of_int sec)))
           (fdiv A (mathPI A) (num A (of_int st)))) rows
           (filled s0 V N T, length V, length T) =
         (filled s0
            (V @ concat (map (\<lambda>i. concat (map (\<lambda>j. store3 A (spec_position A r sec st i j)) (upToIncl sec))) rows))
            (N @ concat (map (\<lambda>i. concat (map (\<lambda>j. store3 A (spec_normal A r sec st i j)) (upToIncl sec))) rows))
            (T @ concat (map (\<lambda>i. concat (map (\<lambda>j. store2 A (spec_texCoord A sec st i j)) (upToIncl sec))) rows)),
          length (V @ concat (map (\<lambda>i. concat (map (\<lambda>j. store3 A (spec_position A r sec st i j)) (upToIncl sec))) rows)),
          length (T @ concat (map (\<lambda>i. concat (map (\<lambda>j. store2 A (spec_texCoord A sec st i j)) (upToIncl sec))) rows)))"
  using l
proof (induction rows arbitrary: V N T)
  case Nil
  then show ?case by simp
next
  case (Cons i rows)
  let ?V = "V @ concat (map (\<lambda>j. store3 A (spec_position A r sec st i j)) (upToIncl sec))"
  let ?N = "N @ concat (map (\<lambda>j. store3 A (spec_normal A r sec st i j)) (upToIncl sec))"
  let ?T = "T @ concat (map (\<lambda>j. store2 A (spec_texCoord A sec st i j)) (upToIncl sec))"
  let ?f = "smoothVertexRow A (fdiv A (num A 1) r)
           (fdiv A (fmul A (num A 2) (mathPI A)) (num A (of_int sec)))
           (fdiv A (mathPI A) (num A (of_int st)))"
  have l': "length ?N = length ?V" using Cons.prems by (simp add: length_store3_row)
  have "fold ?f (i # rows) (filled s0 V N T, length V, length T) =
        fold ?f rows (filled s0 ?V ?N ?T, length ?V, length ?T)"
    by (simp only: fold_simps smoothVertexRow_filled [OF Cons.prems c r])
  also have "\<dots> =
         (filled s0
            (?V @ concat (map (\<lambda>i. concat (map (\<lambda>j. store3 A (spec_position A r sec st i j)) (upToIncl sec))) rows))
            (?N @ concat (map (\<lambda>i. concat (map (\<lambda>j. store3 A (spec_normal A r sec st i j)) (upToIncl sec))) rows))
            (?T @ concat (map (\<lambda>i. concat (map (\<lambda>j. store2 A (spec_texCoord A sec st i j)) (upToIncl sec))) rows)),
          length (?V @ concat (map (\<lambda>i. concat (map (\<lambda>j. store3 A (spec_position A r sec st i j)) (upToIncl sec))) rows)),
          length (?T @ concat (map (\<lambda>i. concat (map (\<lambda>j. store2 A (spec_texCoord A sec st i j)) (upToIncl sec))) rows)))"
    by (rule Cons.IH [OF l'])
  finally show ?case by simp
qed

lemma length_grid3:
  "length (grid sec st (\<lambda>i j. store3 A (f i j))) = 3 * (nat (st + 1) * nat (sec + 1))"
proof -
  have "length (concat (map (\<lambda>i. concat (map (\<lambda>j. store3 A (f i j)) js)) rows)) =
        3 * (length rows * length js)" for rows js
    by (induction rows) (simp_all add: length_store3_row algebra_simps)
  then show ?thesis by (simp add: grid_def)
qed

lemma length_grid2:
  "length (grid sec st (\<lambda>i j. store2 A (f i j))) = 2 * (nat (st + 1) * nat (sec + 1))"
proof -
  have "length (concat (map (\<lambda>i. concat (map (\<lambda>j. store2 A (f i j)) js)) rows)) =
        2 * (length rows * length js)" for rows js
    by (induction rows) (simp_all add: length_store2_row algebra_simps)
  then show ?thesis by (simp add: grid_def)
qed

lemma vertexTotal_smooth:
  "0 \<le> sec \<Longrightarrow> 0 \<le> st \<Longrightarrow> nat (st + 1) * nat (sec + 1) = nat ((sec + 1) * (st + 1))"
  by (simp add: nat_mult_distrib mult.commute)

text \<open>The smooth build, array by array.\<close>

lemma buildVerticesSmooth_arrays:
  assumes sec: "3 \<le> sectorCount s0" and st: "2 \<le> stackCount s0"
  shows "buildVerticesSmooth A s0 =
     Inr (buildVbos (buildInterleavedVertices A
       (s0\<lparr>vertices := smoothVertices A (radius s0) (sectorCount s0) (stackCount s0),
           normals := smoothNormals A (radius s0) (sectorCount s0) (stackCount s0),
           texCoords := smoothTexCoords A (sectorCount s0) (stackCount s0),
           indices := map word_of_int (spec_smoothIndices (sectorCount s0) (stackCount s0)),
           interleavedVertices := []\<rparr>)))"
proof -
  let ?sec = "sectorCount s0" and ?st = "stackCount s0" and ?r = "radius s0"
  let ?c = "nat ((?sec + 1) * (?st + 1))"
  let ?init = "replicate (nat (6 * ?sec * (?st - 1))) (0 :: 16 word)"
  let ?s = "s0\<lparr>vertices := zeros A (3 * ?c), normals := zeros A (3 * ?c),
                texCoords := zeros A (2 * ?c), indices := ?init, interleavedVertices := []\<rparr>"
  let ?V = "smoothVertices A ?r ?sec ?st" and ?N = "smoothNormals A ?r ?sec ?st"
  let ?T = "smoothTexCoords A ?sec ?st"
  let ?W = "map word_of_int (spec_smoothIndices ?sec ?st) :: 16 word list"
  have rs: "resizeArraysSmooth A s0 = Inr ?s" by (rule resizeArraysSmooth_ok [OF sec st])
  have cnt: "sectorCount ?s = ?sec" "stackCount ?s = ?st" and rad: "radius ?s = ?r" by simp_all
  have n: "nat (?st + 1) * nat (?sec + 1) = ?c" using sec st by (intro vertexTotal_smooth) simp_all
  have lV: "length ?V = 3 * ?c" and lN: "length ?N = 3 * ?c" and lT: "length ?T = 2 * ?c"
    by (simp_all add: smoothVertices_def smoothNormals_def smoothTexCoords_def
          length_grid3 length_grid2 n)
  have "fold (smoothVertexRow A (fdiv A (num A 1) ?r)
           (fdiv A (fmul A (num A 2) (mathPI A)) (num A (of_int ?sec)))
           (fdiv A (mathPI A) (num A (of_int ?st)))) (upToIncl ?st)
           (filled ?s [] [] [], length ([] :: 'b list), length ([] :: 'b list)) =
         (filled ?s ([] @ ?V) ([] @ ?N) ([] @ ?T), length ([] @ ?V), length ([] @ ?T))"
    unfolding smoothVertices_def smoothNormals_def smoothTexCoords_def grid_def
      upToIncl_def [symmetric]
    by (rule smoothVertexRows_filled [OF _ cnt rad]) simp
  moreover have "filled ?s ?V ?N ?T = ?s\<lparr>vertices := ?V, normals := ?N, texCoords := ?T\<rparr>"
    by (simp add: filled_def written_full lV lN lT zeros_def)
  ultimately have v: "fold (smoothVertexRow A (fdiv A (num A 1) (radius ?s))
           (fdiv A (fmul A (num A 2) (mathPI A)) (num A (of_int (sectorCount ?s))))
           (fdiv A (mathPI A) (num A (of_int (stackCount ?s))))) (upToIncl (stackCount ?s))
           (?s, 0, 0) =
         (?s\<lparr>vertices := ?V, normals := ?N, texCoords := ?T\<rparr>, length ?V, length ?T)"
    by (simp add: filled_Nil)
  let ?s1 = "?s\<lparr>vertices := ?V, normals := ?N, texCoords := ?T\<rparr>"
  have cnt1: "stackCount ?s1 = ?st" "sectorCount ?s1 = ?sec" by simp_all
  have s1w: "?s1 = ?s1\<lparr>indices := written ?init []\<rparr>" by (simp add: written_Nil)
  have "fold smoothIndexRow (upToExcl (stackCount ?s1))
          (?s1\<lparr>indices := written ?init []\<rparr>, length ([] :: 16 word list)) =
        (?s1\<lparr>indices := written ?init ([] @ ?W)\<rparr>, length ([] @ ?W))"
    using smoothIndexRows_written [OF cnt1, where init = ?init and W = "[]"
        and rows = "upToExcl (stackCount ?s1)"]
    by (simp add: spec_smoothIndices_def upToExcl_def)
  moreover have "length ?W = length ?init"
    using length_spec_smoothIndices [of ?sec ?st] sec st by simp
  ultimately have ix: "fold smoothIndexRow (upToExcl (stackCount ?s1)) (?s1, 0) =
      (?s1\<lparr>indices := ?W\<rparr>, length ?W)"
    using s1w by (simp add: written_full)
  have b: "buildVerticesSmooth A s0 = Inr (buildVbos (buildInterleavedVertices A (?s1\<lparr>indices := ?W\<rparr>)))"
    unfolding buildVerticesSmooth_def rs by (simp only: sum.case Let_def v ix prod.case)
  have e: "?s1\<lparr>indices := ?W\<rparr> = s0\<lparr>vertices := ?V, normals := ?N, texCoords := ?T,
             indices := ?W, interleavedVertices := []\<rparr>"
    by simp
  show ?thesis unfolding b e ..
qed

lemma written_skip:
  "written (replicate n z) (W @ replicate k z) = written (replicate n z) W"
proof (cases "length W \<le> n")
  case False
  then show ?thesis by (simp add: written_def)
next
  case True
  have "min (n - length W) (k + (n - (length W + k))) = n - length W" by simp
  then show ?thesis
    using True by (simp add: written_def replicate_add [symmetric])
qed

lemma filled4_fields:
  "sectorCount (filled4 s0 V N T W) = sectorCount s0"
  "stackCount (filled4 s0 V N T W) = stackCount s0"
  "radius (filled4 s0 V N T W) = radius s0"
  by (simp_all add: filled4_def)

lemma filled4_Nil: "filled4 s0 [] [] [] [] = s0"
  by (simp add: filled4_def written_Nil)

lemma addVertex_filled4:
  "k = length V \<Longrightarrow>
   addVertex A k x y z (filled4 s0 V N T W) = filled4 s0 (V @ cornerV A (Vertex x y z s t)) N T W"
  using written_store3 [of k V "vertices s0" "toF32 A x" "toF32 A y" "toF32 A z"]
  by (simp add: addVertex_def filled4_def cornerV_def store3_def)

lemma addNormal_filled4:
  "k = length N \<Longrightarrow>
   addNormal A k x y z (filled4 s0 V N T W) = filled4 s0 V (N @ store3 A (x, y, z)) T W"
  using written_store3 [of k N "normals s0" "toF32 A x" "toF32 A y" "toF32 A z"]
  by (simp add: addNormal_def filled4_def store3_def)

lemma addTexCoord_filled4:
  "k = length T \<Longrightarrow>
   addTexCoord A k x y (filled4 s0 V N T W) = filled4 s0 V N (T @ store2 A (x, y)) W"
  using written_store2 [of k T "texCoords s0" "toF32 A x" "toF32 A y"]
  by (simp add: addTexCoord_def filled4_def store2_def)

lemma addIndices_filled4:
  "k = length W \<Longrightarrow>
   addIndices k a b c (filled4 s0 V N T W) =
   filled4 s0 V N T (W @ [word_of_int a, word_of_int b, word_of_int c])"
  using written_store3 [of k W "indices s0" "word_of_int a" "word_of_int b" "word_of_int c"]
  by (simp add: addIndices_def filled4_def)

lemma skip_normal_filled4:
  "normals s0 = zeros A m \<Longrightarrow> filled4 s0 V (N @ zeros A 3) T W = filled4 s0 V N T W"
  by (simp add: filled4_def zeros_def written_skip)

lemma cornerV_sel: "cornerV A a = store3 A (v_x a, v_y a, v_z a)"
  by (simp add: cornerV_def)

lemma length_corner [simp]:
  "length (cornerV A a) = 3" "length (cornerT A a) = 2" "length (faceN A a b c) = 3"
  "length (store3 A p) = 3" "length (store2 A q) = 2"
  by (simp_all add: cornerV_def cornerT_def faceN_def store3_def store2_def Let_def
        split: prod.splits)

lemma putTriangle_filled4:
  assumes "length N = length V"
  shows "putTriangle A a b c (filled4 s0 V N T W, length V, length T, length W, idx) =
         (filled4 s0 (V @ cornerV A a @ cornerV A b @ cornerV A c)
                     (N @ faceN A a b c @ faceN A a b c @ faceN A a b c)
                     (T @ cornerT A a @ cornerT A b @ cornerT A c)
                     (W @ map word_of_int [idx, idx + 1, idx + 2]),
          length V + 9, length T + 6, length W + 3, idx + 3)"
proof -
  have v: "addVertex A k (v_x u) (v_y u) (v_z u) (filled4 s0 V' N' T' W') =
           filled4 s0 (V' @ cornerV A u) N' T' W'" if "k = length V'" for k u V' N' T' W'
    using addVertex_filled4 [OF that, of A "v_x u" "v_y u" "v_z u" s0 N' T' W' "v_s u" "v_t u"]
    by (simp add: cornerV_def)
  have t: "addTexCoord A k (v_s u) (v_t u) (filled4 s0 V' N' T' W') =
           filled4 s0 V' N' (T' @ cornerT A u) W'" if "k = length T'" for k u V' N' T' W'
    using addTexCoord_filled4 [OF that, of A "v_s u" "v_t u" s0 V' N' W']
    by (simp add: cornerT_def)
  show ?thesis
    using assms
    by (simp add: putTriangle_def Let_def v t addNormal_filled4 addIndices_filled4 faceN_def)
qed

lemma putQuad_filled4:
  assumes "length N = length V" "normals s0 = zeros A m"
  shows "putQuad A a b c d (filled4 s0 V N T W, length V, length T, length W, idx) =
         (filled4 s0 (V @ cornerV A a @ cornerV A b @ cornerV A c @ cornerV A d)
                     (N @ faceN A a b c @ faceN A a b c @ faceN A a b c @ zeros A 3)
                     (T @ cornerT A a @ cornerT A b @ cornerT A c @ cornerT A d)
                     (W @ map word_of_int [idx, idx + 1, idx + 2, idx + 2, idx + 1, idx + 3]),
          length V + 12, length T + 8, length W + 6, idx + 4)"
proof -
  have v: "addVertex A k (v_x u) (v_y u) (v_z u) (filled4 s0 V' N' T' W') =
           filled4 s0 (V' @ cornerV A u) N' T' W'" if "k = length V'" for k u V' N' T' W'
    using addVertex_filled4 [OF that, of A "v_x u" "v_y u" "v_z u" s0 N' T' W' "v_s u" "v_t u"]
    by (simp add: cornerV_def)
  have t: "addTexCoord A k (v_s u) (v_t u) (filled4 s0 V' N' T' W') =
           filled4 s0 V' N' (T' @ cornerT A u) W'" if "k = length T'" for k u V' N' T' W'
    using addTexCoord_filled4 [OF that, of A "v_s u" "v_t u" s0 V' N' W']
    by (simp add: cornerT_def)
  have sk: "filled4 s0 V' (N' @ X @ Y @ Z @ zeros A 3) T' W' = filled4 s0 V' (N' @ X @ Y @ Z) T' W'"
    for V' N' X Y Z T' W'
    using skip_normal_filled4 [OF assms(2), of V' "N' @ X @ Y @ Z" T' W'] by simp
  show ?thesis
    using assms(1)
    by (simp add: putQuad_def Let_def v t addNormal_filled4 addIndices_filled4 faceN_def sk)
qed

lemma rowCells_0: "rowCells f a b 0 = []"
  by (simp add: rowCells_def)

lemma rowCells_Suc: "rowCells f a b (Suc n) = f a b @ rowCells f (Suc a) (Suc b) n"
proof -
  have "[0..<Suc n] = 0 # map Suc [0..<n]"
    by (simp add: upt_conv_Cons map_Suc_upt del: upt_Suc)
  then show ?thesis
    by (simp add: rowCells_def comp_def del: upt_Suc)
qed

lemma length_flatCell:
  "length (flatCellV A tmp st i a b) = 3 * flatCellVerts st i"
  "length (flatCellN A tmp st i a b) = 3 * flatCellVerts st i"
  "length (flatCellT A tmp st i a b) = 2 * flatCellVerts st i"
  by (simp_all add: flatCellV_def flatCellN_def flatCellT_def flatCellVerts_def Let_def zeros_def)

lemma flatBody_filled4:
  assumes l: "length N = length V" and z: "normals s0 = zeros A m" and sc: "stackCount s0 = st"
    and r: "vi1 + 1 < length tmp" "vi2 + 1 < length tmp"
  shows "flatBody A tmp i j
           ((filled4 s0 V N T W, length V, length T, length W, idx), int vi1, int vi2) =
         Inr ((filled4 s0 (V @ flatCellV A tmp st i vi1 vi2) (N @ flatCellN A tmp st i vi1 vi2)
                 (T @ flatCellT A tmp st i vi1 vi2)
                 (W @ map word_of_int (flatCellIndices st i idx)),
               length (V @ flatCellV A tmp st i vi1 vi2),
               length (T @ flatCellT A tmp st i vi1 vi2),
               length (W @ map word_of_int (flatCellIndices st i idx)),
               idx + int (flatCellVerts st i)),
              int vi1 + 1, int vi2 + 1)"
proof -
  have g: "tmpGet tmp (int vi1) = Some (tmp ! vi1)" "tmpGet tmp (int vi2) = Some (tmp ! vi2)"
    "tmpGet tmp (int vi1 + 1) = Some (tmp ! (vi1 + 1))"
    "tmpGet tmp (int vi2 + 1) = Some (tmp ! (vi2 + 1))"
    using r by (simp_all add: tmpGet_def nat_add_distrib)
  consider (first) "int i = 0" | (last) "int i \<noteq> 0" "int i = st - 1"
    | (mid) "int i \<noteq> 0" "int i \<noteq> st - 1" by blast
  then show ?thesis
  proof cases
    case first
    then show ?thesis
      by (simp add: flatBody_def g filled4_fields sc putTriangle_filled4 [OF l]
            flatCellV_def flatCellN_def flatCellT_def flatCellIndices_def flatCellVerts_def Let_def)
  next
    case last
    then show ?thesis
      by (simp add: flatBody_def g filled4_fields sc putTriangle_filled4 [OF l]
            flatCellV_def flatCellN_def flatCellT_def flatCellIndices_def flatCellVerts_def Let_def)
  next
    case mid
    then show ?thesis
      by (simp add: flatBody_def g filled4_fields sc putQuad_filled4 [OF l z]
            flatCellV_def flatCellN_def flatCellT_def flatCellIndices_def flatCellVerts_def
            Let_def)
  qed
qed

lemma flatInner_filled4:
  assumes l: "length N = length V" and z: "normals s0 = zeros A m" and sc: "stackCount s0 = st"
    and r: "vi1 + length js < length tmp" "vi2 + length js < length tmp"
  shows "foldE (flatBody A tmp i) js
           ((filled4 s0 V N T W, length V, length T, length W, idx), int vi1, int vi2) =
         Inr ((filled4 s0 (V @ rowCells (flatCellV A tmp st i) vi1 vi2 (length js))
                 (N @ rowCells (flatCellN A tmp st i) vi1 vi2 (length js))
                 (T @ rowCells (flatCellT A tmp st i) vi1 vi2 (length js))
                 (W @ map word_of_int (flatRowIndices st i idx (length js))),
               length (V @ rowCells (flatCellV A tmp st i) vi1 vi2 (length js)),
               length (T @ rowCells (flatCellT A tmp st i) vi1 vi2 (length js)),
               length (W @ map word_of_int (flatRowIndices st i idx (length js))),
               idx + int (flatCellVerts st i * length js)),
              int vi1 + int (length js), int vi2 + int (length js))"
  using l r
proof (induction js arbitrary: V N T W idx vi1 vi2)
  case Nil
  then show ?case by (simp add: rowCells_0)
next
  case (Cons j js)
  let ?V = "V @ flatCellV A tmp st i vi1 vi2" and ?N = "N @ flatCellN A tmp st i vi1 vi2"
  let ?T = "T @ flatCellT A tmp st i vi1 vi2"
  let ?W = "W @ map word_of_int (flatCellIndices st i idx)"
  let ?x = "idx + int (flatCellVerts st i)"
  have r1: "vi1 + 1 < length tmp" "vi2 + 1 < length tmp" using Cons.prems by simp_all
  have l': "length ?N = length ?V" using Cons.prems(1) by (simp add: length_flatCell)
  have r': "Suc vi1 + length js < length tmp" "Suc vi2 + length js < length tmp"
    using Cons.prems by simp_all
  have "foldE (flatBody A tmp i) (j # js)
           ((filled4 s0 V N T W, length V, length T, length W, idx), int vi1, int vi2) =
        foldE (flatBody A tmp i) js
           ((filled4 s0 ?V ?N ?T ?W, length ?V, length ?T, length ?W, ?x),
            int (Suc vi1), int (Suc vi2))"
    by (simp add: flatBody_filled4 [OF Cons.prems(1) z sc r1] add.commute)
  also have "\<dots> =
         Inr ((filled4 s0 (?V @ rowCells (flatCellV A tmp st i) (Suc vi1) (Suc vi2) (length js))
                 (?N @ rowCells (flatCellN A tmp st i) (Suc vi1) (Suc vi2) (length js))
                 (?T @ rowCells (flatCellT A tmp st i) (Suc vi1) (Suc vi2) (length js))
                 (?W @ map word_of_int (flatRowIndices st i ?x (length js))),
               length (?V @ rowCells (flatCellV A tmp st i) (Suc vi1) (Suc vi2) (length js)),
               length (?T @ rowCells (flatCellT A tmp st i) (Suc vi1) (Suc vi2) (length js)),
               length (?W @ map word_of_int (flatRowIndices st i ?x (length js))),
               ?x + int (flatCellVerts st i * length js)),
              int (Suc vi1) + int (length js), int (Suc vi2) + int (length js))"
    by (rule Cons.IH [OF l' r'])
  finally show ?case
    by (simp add: rowCells_Suc algebra_simps)
qed

lemma flatRow_filled4:
  assumes l: "length N = length V" and z: "normals s0 = zeros A m"
    and sc: "stackCount s0 = st" "sectorCount s0 = sec"
    and i: "i < nat st" and sec: "0 \<le> sec"
    and len: "length tmp = nat (st + 1) * nat (sec + 1)"
  shows "flatRow A tmp i (filled4 s0 V N T W, length V, length T, length W, idx) =
         Inr (filled4 s0
                (V @ rowCells (flatCellV A tmp st i) (i * nat (sec + 1)) ((i + 1) * nat (sec + 1)) (nat sec))
                (N @ rowCells (flatCellN A tmp st i) (i * nat (sec + 1)) ((i + 1) * nat (sec + 1)) (nat sec))
                (T @ rowCells (flatCellT A tmp st i) (i * nat (sec + 1)) ((i + 1) * nat (sec + 1)) (nat sec))
                (W @ map word_of_int (flatRowIndices st i idx (nat sec))),
              length (V @ rowCells (flatCellV A tmp st i) (i * nat (sec + 1)) ((i + 1) * nat (sec + 1)) (nat sec)),
              length (T @ rowCells (flatCellT A tmp st i) (i * nat (sec + 1)) ((i + 1) * nat (sec + 1)) (nat sec)),
              length (W @ map word_of_int (flatRowIndices st i idx (nat sec))),
              idx + int (flatCellVerts st i * nat sec))"
proof -
  let ?m = "nat (sec + 1)"
  have m: "?m = nat sec + 1" using sec by simp
  have "(i + 2) * ?m \<le> nat (st + 1) * ?m" using i by (intro mult_le_mono1) simp
  then have top: "(i + 1) * ?m + nat sec < length tmp" unfolding len by (simp add: m)
  have "i * ?m \<le> (i + 1) * ?m" by simp
  then have top1: "i * ?m + nat sec < length tmp" using top by linarith
  have v1: "int i * (sec + 1) = int (i * ?m)" and v2: "(int i + 1) * (sec + 1) = int ((i + 1) * ?m)"
    using sec by (simp_all add: algebra_simps)
  have lj: "length (upToExcl sec) = nat sec" by (simp add: upToExcl_def)
  show ?thesis
    using flatInner_filled4 [OF l z sc(1), of "i * ?m" "upToExcl sec" tmp "(i + 1) * ?m" i T W idx]
      top top1
    unfolding flatRow_def Let_def fst_conv filled4_fields sc v1 v2 lj
    by simp
qed

lemma length_rowCells:
  assumes "\<And>a b. length (f a b) = c"
  shows "length (rowCells f a b n) = c * n"
  by (induction n arbitrary: a b) (simp_all add: rowCells_0 rowCells_Suc assms)

lemma flatRows_filled4:
  assumes l: "length N = length V" and z: "normals s0 = zeros A m"
    and sc: "stackCount s0 = st" "sectorCount s0 = sec"
    and rows: "\<forall>i\<in>set rows. i < nat st" and sec: "0 \<le> sec"
    and len: "length tmp = nat (st + 1) * nat (sec + 1)"
  shows "foldE (flatRow A tmp) rows (filled4 s0 V N T W, length V, length T, length W, idx) =
         Inr (filled4 s0
                (V @ concat (map (\<lambda>i. rowCells (flatCellV A tmp st i) (i * nat (sec + 1)) ((i + 1) * nat (sec + 1)) (nat sec)) rows))
                (N @ concat (map (\<lambda>i. rowCells (flatCellN A tmp st i) (i * nat (sec + 1)) ((i + 1) * nat (sec + 1)) (nat sec)) rows))
                (T @ concat (map (\<lambda>i. rowCells (flatCellT A tmp st i) (i * nat (sec + 1)) ((i + 1) * nat (sec + 1)) (nat sec)) rows))
                (W @ map word_of_int (flatIndices sec st rows idx)),
              length (V @ concat (map (\<lambda>i. rowCells (flatCellV A tmp st i) (i * nat (sec + 1)) ((i + 1) * nat (sec + 1)) (nat sec)) rows)),
              length (T @ concat (map (\<lambda>i. rowCells (flatCellT A tmp st i) (i * nat (sec + 1)) ((i + 1) * nat (sec + 1)) (nat sec)) rows)),
              length (W @ map word_of_int (flatIndices sec st rows idx)),
              idx + int (sum_list (map (\<lambda>i. flatCellVerts st i * nat sec) rows)))"
  using l rows
proof (induction rows arbitrary: V N T W idx)
  case Nil
  then show ?case by simp
next
  case (Cons i rows)
  let ?a = "i * nat (sec + 1)" and ?b = "(i + 1) * nat (sec + 1)"
  let ?V = "V @ rowCells (flatCellV A tmp st i) ?a ?b (nat sec)"
  let ?N = "N @ rowCells (flatCellN A tmp st i) ?a ?b (nat sec)"
  let ?T = "T @ rowCells (flatCellT A tmp st i) ?a ?b (nat sec)"
  let ?W = "W @ map word_of_int (flatRowIndices st i idx (nat sec))"
  let ?x = "idx + int (flatCellVerts st i * nat sec)"
  have i: "i < nat st" and rest: "\<forall>i\<in>set rows. i < nat st" using Cons.prems(2) by simp_all
  have l': "length ?N = length ?V"
    using Cons.prems(1)
    by (simp add: length_rowCells [where c = "3 * flatCellVerts st i"] length_flatCell)
  have "foldE (flatRow A tmp) (i # rows) (filled4 s0 V N T W, length V, length T, length W, idx) =
        foldE (flatRow A tmp) rows (filled4 s0 ?V ?N ?T ?W, length ?V, length ?T, length ?W, ?x)"
    by (simp only: foldE.simps flatRow_filled4 [OF Cons.prems(1) z sc i sec len] sum.case)
  also have "\<dots> =
         Inr (filled4 s0
                (?V @ concat (map (\<lambda>i. rowCells (flatCellV A tmp st i) (i * nat (sec + 1)) ((i + 1) * nat (sec + 1)) (nat sec)) rows))
                (?N @ concat (map (\<lambda>i. rowCells (flatCellN A tmp st i) (i * nat (sec + 1)) ((i + 1) * nat (sec + 1)) (nat sec)) rows))
                (?T @ concat (map (\<lambda>i. rowCells (flatCellT A tmp st i) (i * nat (sec + 1)) ((i + 1) * nat (sec + 1)) (nat sec)) rows))
                (?W @ map word_of_int (flatIndices sec st rows ?x)),
              length (?V @ concat (map (\<lambda>i. rowCells (flatCellV A tmp st i) (i * nat (sec + 1)) ((i + 1) * nat (sec + 1)) (nat sec)) rows)),
              length (?T @ concat (map (\<lambda>i. rowCells (flatCellT A tmp st i) (i * nat (sec + 1)) ((i + 1) * nat (sec + 1)) (nat sec)) rows)),
              length (?W @ map word_of_int (flatIndices sec st rows ?x)),
              ?x + int (sum_list (map (\<lambda>i. flatCellVerts st i * nat sec) rows)))"
    by (rule Cons.IH [OF l' rest])
  finally show ?case by simp
qed

lemma flatVertexInner_closed:
  assumes "sectorCount s = sec" "stackCount s = st"
  shows "fold (flatVertexBody A s
            (fdiv A (fmul A (num A 2) (mathPI A)) (num A (of_int sec)))
            (fmul A r (fcos A (fsub A (fdiv A (mathPI A) (num A 2))
               (fmul A (num A (of_nat i)) (fdiv A (mathPI A) (num A (of_int st)))))))
            (fmul A r (fsin A (fsub A (fdiv A (mathPI A) (num A 2))
               (fmul A (num A (of_nat i)) (fdiv A (mathPI A) (num A (of_int st))))))) i) js acc =
         acc @ map (gridVertex A r sec st i) js"
  by (induction js arbitrary: acc)
     (simp_all add: flatVertexBody_def gridVertex_def spec_position_def spec_texCoord_def
        Let_def assms)

lemma flatVertexRows_closed:
  assumes c: "sectorCount s = sec" "stackCount s = st" and r: "radius s = r"
  shows "fold (flatVertexRow A s
            (fdiv A (fmul A (num A 2) (mathPI A)) (num A (of_int sec)))
            (fdiv A (mathPI A) (num A (of_int st)))) rows acc =
         acc @ concat (map (\<lambda>i. map (gridVertex A r sec st i) (upToIncl sec)) rows)"
proof (induction rows arbitrary: acc)
  case Nil
  show ?case by simp
next
  case (Cons i rows)
  have "flatVertexRow A s
            (fdiv A (fmul A (num A 2) (mathPI A)) (num A (of_int sec)))
            (fdiv A (mathPI A) (num A (of_int st))) i acc =
        acc @ map (gridVertex A r sec st i) (upToIncl sec)"
    unfolding flatVertexRow_def Let_def c r by (rule flatVertexInner_closed [OF c])
  then show ?case by (simp add: Cons.IH)
qed

lemma gridVertices_closed:
  "gridVertices A r sec st =
     concat (map (\<lambda>i. map (gridVertex A r sec st i) (upToIncl sec)) (upToIncl st))"
proof -
  have "concat (map (\<lambda>j. [g j]) js) = map g js" for g :: "nat \<Rightarrow> 'c" and js
    by (induction js) simp_all
  then show ?thesis by (simp add: gridVertices_def grid_def upToIncl_def)
qed

lemma length_gridVertices:
  "length (gridVertices A r sec st) = nat (st + 1) * nat (sec + 1)"
proof -
  have x: "length (concat (map (\<lambda>i. map (g i) js) rows)) = length rows * length js"
    for g :: "nat \<Rightarrow> nat \<Rightarrow> 'c" and js rows
    by (induction rows) simp_all
  show ?thesis by (simp add: gridVertices_closed upToIncl_def x)
qed

lemma length_flatGrid:
  assumes "\<And>i a b. length (f i a b) = c * flatCellVerts st i" "0 \<le> sec" "2 \<le> st"
  shows "length (flatGrid sec st f) = c * nat (6 * sec + 4 * sec * (st - 2))"
proof -
  have rc: "length (rowCells (f i) a b n) = c * flatCellVerts st i * n" for i a b n
    by (rule length_rowCells) (rule assms(1))
  have x: "length (concat (map (\<lambda>i. rowCells (f i) (a i) (b i) n) rows)) =
        c * sum_list (map (\<lambda>i. flatCellVerts st i * n) rows)" for a b n rows
    by (induction rows) (simp_all add: rc algebra_simps)
  show ?thesis
    unfolding flatGrid_def x using flatVerts_all [OF assms(2,3)] by simp
qed

text \<open>The flat build, array by array.\<close>

lemma buildVerticesFlat_arrays:
  assumes sec: "3 \<le> sectorCount s0" and st: "2 \<le> stackCount s0"
  shows "buildVerticesFlat A s0 =
     Inr (buildVbos (buildInterleavedVertices A
       (s0\<lparr>vertices := flatVertices A (radius s0) (sectorCount s0) (stackCount s0),
           normals := flatNormals A (radius s0) (sectorCount s0) (stackCount s0),
           texCoords := flatTexCoords A (radius s0) (sectorCount s0) (stackCount s0),
           indices := map word_of_int
             (flatIndices (sectorCount s0) (stackCount s0) [0..<nat (stackCount s0)] 0),
           interleavedVertices := []\<rparr>)))"
proof -
  let ?sec = "sectorCount s0" and ?st = "stackCount s0" and ?r = "radius s0"
  let ?c = "nat (6 * ?sec + 4 * ?sec * (?st - 2))"
  let ?init = "replicate (nat (6 * ?sec * (?st - 1))) (0 :: 16 word)"
  let ?s = "s0\<lparr>vertices := zeros A (3 * ?c), normals := zeros A (3 * ?c),
                texCoords := zeros A (2 * ?c), indices := ?init, interleavedVertices := []\<rparr>"
  let ?tmp = "gridVertices A ?r ?sec ?st"
  let ?V = "flatVertices A ?r ?sec ?st" and ?N = "flatNormals A ?r ?sec ?st"
  let ?T = "flatTexCoords A ?r ?sec ?st"
  let ?W = "map word_of_int (flatIndices ?sec ?st [0..<nat ?st] 0) :: 16 word list"
  have rs: "resizeArraysFlat A s0 = Inr ?s" by (rule resizeArraysFlat_ok [OF sec st])
  have tmp: "fold (flatVertexRow A s0
            (fdiv A (fmul A (num A 2) (mathPI A)) (num A (of_int ?sec)))
            (fdiv A (mathPI A) (num A (of_int ?st)))) (upToIncl ?st) [] = ?tmp"
    using flatVertexRows_closed [OF refl refl refl, of A s0 "upToIncl ?st" "[]"]
    by (simp add: gridVertices_closed)
  have sec0: "0 \<le> ?sec" using sec by simp
  have lV: "length ?V = 3 * ?c" and lN: "length ?N = 3 * ?c" and lT: "length ?T = 2 * ?c"
    unfolding flatVertices_def flatNormals_def flatTexCoords_def
    by (rule length_flatGrid [OF _ sec0 st], simp add: length_flatCell)+
  have lW: "length ?W = length ?init"
    using length_flatIndices_all [of ?sec ?st] sec st by simp
  have rows: "\<forall>i\<in>set (upToExcl ?st). i < nat ?st" by (simp add: upToExcl_def)
  have "foldE (flatRow A ?tmp) (upToExcl ?st)
          (filled4 ?s [] [] [] [], length ([] :: 'b list), length ([] :: 'b list),
           length ([] :: 16 word list), 0) =
        Inr (filled4 ?s ([] @ ?V) ([] @ ?N) ([] @ ?T) ([] @ ?W),
             length ([] @ ?V), length ([] @ ?T), length ([] @ ?W),
             0 + int (sum_list (map (\<lambda>i. flatCellVerts ?st i * nat ?sec) (upToExcl ?st))))"
    unfolding flatVertices_def flatNormals_def flatTexCoords_def flatGrid_def
      upToExcl_def [symmetric]
    by (rule flatRows_filled4 [where m = "3 * ?c"])
       (simp_all add: rows length_gridVertices sec0)
  moreover have "filled4 ?s ?V ?N ?T ?W =
      ?s\<lparr>vertices := ?V, normals := ?N, texCoords := ?T, indices := ?W\<rparr>"
  proof -
    have wV: "written (zeros A (3 * ?c)) ?V = ?V" by (rule written_full) (simp add: lV zeros_def)
    have wN: "written (zeros A (3 * ?c)) ?N = ?N" by (rule written_full) (simp add: lN zeros_def)
    have wT: "written (zeros A (2 * ?c)) ?T = ?T" by (rule written_full) (simp add: lT zeros_def)
    have wW: "written ?init ?W = ?W" by (rule written_full [OF lW])
    show ?thesis by (simp add: filled4_def wV wN wT wW)
  qed
  ultimately have f: "foldE (flatRow A ?tmp) (upToExcl (stackCount ?s)) (?s, 0, 0, 0, 0) =
        Inr (?s\<lparr>vertices := ?V, normals := ?N, texCoords := ?T, indices := ?W\<rparr>,
             length ?V, length ?T, length ?W,
             int (sum_list (map (\<lambda>i. flatCellVerts ?st i * nat ?sec) (upToExcl ?st))))"
    by (simp add: filled4_Nil)
  have b: "buildVerticesFlat A s0 = Inr (buildVbos (buildInterleavedVertices A
        (?s\<lparr>vertices := ?V, normals := ?N, texCoords := ?T, indices := ?W\<rparr>)))"
    unfolding buildVerticesFlat_def Let_def tmp rs sum.case f prod.case ..
  have e: "?s\<lparr>vertices := ?V, normals := ?N, texCoords := ?T, indices := ?W\<rparr> =
      s0\<lparr>vertices := ?V, normals := ?N, texCoords := ?T, indices := ?W,
         interleavedVertices := []\<rparr>"
    by simp
  show ?thesis unfolding b e ..
qed

section \<open>Built meshes\<close>

lemma not_uploaded_same: "\<not> uploaded s s"
  by (simp add: uploaded_def upload_def)

lemma finish_fields:
  "vertices (buildVbos (buildInterleavedVertices A s)) = vertices s"
  "normals (buildVbos (buildInterleavedVertices A s)) = normals s"
  "texCoords (buildVbos (buildInterleavedVertices A s)) = texCoords s"
  "indices (buildVbos (buildInterleavedVertices A s)) = indices s"
  "radius (buildVbos (buildInterleavedVertices A s)) = radius s"
  "sectorCount (buildVbos (buildInterleavedVertices A s)) = sectorCount s"
  "stackCount (buildVbos (buildInterleavedVertices A s)) = stackCount s"
  "smooth (buildVbos (buildInterleavedVertices A s)) = smooth s"
  "interleavedVertices (buildVbos (buildInterleavedVertices A s)) =
     interleavedVertices (buildInterleavedVertices A s)"
  by (simp_all add: buildVbos_def buildInterleavedVertices_def Let_def)

lemma finish_uploaded: "uploaded s (buildVbos (buildInterleavedVertices A s))"
  by (simp add: uploaded_def buildVbos_def buildInterleavedVertices_def upload_def Let_def)

text \<open>What a smooth build returns.\<close>

lemma smooth_mesh:
  assumes sec: "3 \<le> sectorCount s" and st: "2 \<le> stackCount s"
  shows "\<exists>s'. buildVerticesSmooth A s = Inr s' \<and>
     length (vertices s') = 3 * nat ((sectorCount s + 1) * (stackCount s + 1)) \<and>
     length (normals s') = 3 * nat ((sectorCount s + 1) * (stackCount s + 1)) \<and>
     length (texCoords s') = 2 * nat ((sectorCount s + 1) * (stackCount s + 1)) \<and>
     indices s' = map word_of_int (spec_smoothIndices (sectorCount s) (stackCount s)) \<and>
     radius s' = radius s \<and> sectorCount s' = sectorCount s \<and> stackCount s' = stackCount s \<and>
     smooth s' = smooth s \<and> uploaded s s' \<and>
     (f32_exact A \<longrightarrow> interleavedVertices s' =
        concat (map (record8 (vertices s') (normals s') (texCoords s'))
                    [0..<nat ((sectorCount s + 1) * (stackCount s + 1))]))"
proof -
  let ?n = "nat ((sectorCount s + 1) * (stackCount s + 1))"
  obtain s2 where b: "buildVerticesSmooth A s = Inr (buildVbos (buildInterleavedVertices A s2))"
    and e: "s2 = s\<lparr>vertices := vertices s2, normals := normals s2, texCoords := texCoords s2,
             indices := map word_of_int (spec_smoothIndices (sectorCount s) (stackCount s)),
             interleavedVertices := []\<rparr>"
    and l: "length (vertices s2) = 3 * ?n" "length (normals s2) = 3 * ?n"
           "length (texCoords s2) = 2 * ?n"
    using buildVerticesSmooth_result [OF sec st, of A] by blast
  let ?s' = "buildVbos (buildInterleavedVertices A s2)"
  have f: "radius s2 = radius s" "sectorCount s2 = sectorCount s" "stackCount s2 = stackCount s"
    "smooth s2 = smooth s" "gl s2 = gl s"
    "indices s2 = map word_of_int (spec_smoothIndices (sectorCount s) (stackCount s))"
    by (subst e, simp)+
  have r: "uploaded s ?s'"
    using finish_uploaded [of s2 A] by (simp add: uploaded_def f)
  have i: "f32_exact A \<longrightarrow> interleavedVertices ?s' =
        concat (map (record8 (vertices ?s') (normals ?s') (texCoords ?s')) [0..<?n])"
  proof
    assume ex: "f32_exact A"
    have "interleavedVertices ?s' = interleavedVertices (buildInterleavedVertices A s2)"
      by (rule finish_fields)
    also have "\<dots> = concat (map (record8 (vertices s2) (normals s2) (texCoords s2)) [0..<?n])"
      by (subst buildInterleavedVertices_closed [OF ex l]) simp
    finally show "interleavedVertices ?s' =
        concat (map (record8 (vertices ?s') (normals ?s') (texCoords ?s')) [0..<?n])"
      by (simp only: finish_fields)
  qed
  show ?thesis
    apply (rule exI [of _ ?s'])
    using b l f r i by (simp add: finish_fields)
qed

text \<open>What a flat build returns.\<close>

lemma flat_mesh:
  assumes sec: "3 \<le> sectorCount s" and st: "2 \<le> stackCount s"
  shows "\<exists>s'. buildVerticesFlat A s = Inr s' \<and>
     length (vertices s') = 3 * nat (6 * sectorCount s + 4 * sectorCount s * (stackCount s - 2)) \<and>
     length (normals s') = 3 * nat (6 * sectorCount s + 4 * sectorCount s * (stackCount s - 2)) \<and>
     length (texCoords s') = 2 * nat (6 * sectorCount s + 4 * sectorCount s * (stackCount s - 2)) \<and>
     indices s' = map word_of_int
        (flatIndices (sectorCount s) (stackCount s) [0..<nat (stackCount s)] 0) \<and>
     radius s' = radius s \<and> sectorCount s' = sectorCount s \<and> stackCount s' = stackCount s \<and>
     smooth s' = smooth s \<and> uploaded s s' \<and>
     (f32_exact A \<longrightarrow> interleavedVertices s' =
        concat (map (record8 (vertices s') (normals s') (texCoords s'))
                    [0..<nat (6 * sectorCount s + 4 * sectorCount s * (stackCount s - 2))]))"
proof -
  let ?n = "nat (6 * sectorCount s + 4 * sectorCount s * (stackCount s - 2))"
  obtain s2 where b: "buildVerticesFlat A s = Inr (buildVbos (buildInterleavedVertices A s2))"
    and e: "s2 = s\<lparr>vertices := vertices s2, normals := normals s2, texCoords := texCoords s2,
             indices := map word_of_int
               (flatIndices (sectorCount s) (stackCount s) [0..<nat (stackCount s)] 0),
             interleavedVertices := []\<rparr>"
    and l: "length (vertices s2) = 3 * ?n" "length (normals s2) = 3 * ?n"
           "length (texCoords s2) = 2 * ?n"
    using buildVerticesFlat_result [OF sec st, of A] by blast
  let ?s' = "buildVbos (buildInterleavedVertices A s2)"
  have f: "radius s2 = radius s" "sectorCount s2 = sectorCount s" "stackCount s2 = stackCount s"
    "smooth s2 = smooth s" "gl s2 = gl s"
    "indices s2 = map word_of_int
               (flatIndices (sectorCount s) (stackCount s) [0..<nat (stackCount s)] 0)"
    by (subst e, simp)+
  have r: "uploaded s ?s'"
    using finish_uploaded [of s2 A] by (simp add: uploaded_def f)
  have i: "f32_exact A \<longrightarrow> interleavedVertices ?s' =
        concat (map (record8 (vertices ?s') (normals ?s') (texCoords ?s')) [0..<?n])"
  proof
    assume ex: "f32_exact A"
    have "interleavedVertices ?s' = interleavedVertices (buildInterleavedVertices A s2)"
      by (rule finish_fields)
    also have "\<dots> = concat (map (record8 (vertices s2) (normals s2) (texCoords s2)) [0..<?n])"
      by (subst buildInterleavedVertices_closed [OF ex l]) simp
    finally show "interleavedVertices ?s' =
        concat (map (record8 (vertices ?s') (normals ?s') (texCoords ?s')) [0..<?n])"
      by (simp only: finish_fields)
  qed
  show ?thesis
    apply (rule exI [of _ ?s'])
    using b l f r i by (simp add: finish_fields)
qed

lemma f32_exact_ideal: "f32_exact ideal"
  by (simp add: f32_exact_def ideal_def)

lemma example_fields [simp]:
  "sectorCount (example sec st sm) = sec" "stackCount (example sec st sm) = st"
  "smooth (example sec st sm) = sm" "radius (example sec st sm) = 1"
  by (simp_all add: example_def)

lemma set_spec_smoothCell:
  assumes x: "x \<in> set (spec_smoothCell sec st i j)"
    and i: "i < nat st" and j: "j < nat sec"
  shows "0 \<le> x \<and> x < (sec + 1) * (st + 1)"
proof -
  have sec: "0 < sec" and ij: "int j + 1 \<le> sec" "int i + 1 \<le> st" using i j by simp_all
  have m: "(int i + 1) * (sec + 1) \<le> st * (sec + 1)"
    using ij sec by (intro mult_right_mono) simp_all
  have p: "0 \<le> int i * sec" using sec by simp
  have "x = int i * (sec + 1) + int j \<or> x = int i * (sec + 1) + int j + sec + 1 \<or>
        x = int i * (sec + 1) + int j + 1 \<or>
        (x = int i * (sec + 1) + int j + sec + 1 + 1 \<and> int i \<noteq> st - 1)"
    using x by (auto simp: spec_smoothCell_def Let_def split: if_splits)
  then show ?thesis
    using m p ij sec by (auto simp: algebra_simps)
qed

lemma set_spec_smoothIndices:
  assumes "x \<in> set (spec_smoothIndices sec st)"
  shows "0 \<le> x \<and> x < (sec + 1) * (st + 1)"
proof -
  obtain i j where "i < nat st" "j < nat sec" "x \<in> set (spec_smoothCell sec st i j)"
    using assms by (auto simp: spec_smoothIndices_def spec_smoothRow_def)
  then show ?thesis by (intro set_spec_smoothCell)
qed

lemma unat_word_of_int_le:
  "0 \<le> x \<Longrightarrow> int (unat (word_of_int x :: 16 word)) \<le> x"
proof -
  assume x: "0 \<le> x"
  have "int (unat (word_of_int x :: 16 word)) = x mod 2 ^ 16"
    by (simp add: unsigned_of_int take_bit_eq_mod)
  also have "\<dots> \<le> x" using x by (rule zmod_le_nonneg_dividend)
  finally show ?thesis .
qed

lemma stored_index_less:
  assumes w: "w \<in> set (map word_of_int L :: 16 word list)"
    and L: "\<And>x. x \<in> set L \<Longrightarrow> 0 \<le> x \<and> x < int n"
    and len: "length (vertices s') = 3 * n"
  shows "of_nat (unat w) < getVertexCount s'"
proof -
  obtain x where x: "x \<in> set L" and wx: "w = word_of_int x" using w by auto
  have "int (unat w) \<le> x" unfolding wx using L [OF x] by (intro unat_word_of_int_le) simp
  then have "unat w < n" using L [OF x] by linarith
  then have "(of_nat (unat w) :: rat) < of_nat n" by (simp only: of_nat_less_iff)
  moreover have "getVertexCount s' = of_nat n" by (simp add: getVertexCount_def len)
  ultimately show ?thesis by (simp only:)
qed

lemma spec_smoothIndices_3_2:
  "spec_smoothIndices 3 2 = [1, 4, 5, 2, 5, 6, 3, 6, 7, 4, 8, 5, 5, 9, 6, 6, 10, 7]"
  by (simp add: spec_smoothIndices_def spec_smoothRow_def spec_smoothCell_def Let_def
        upt_rec [of 0] upt_rec [of 1] upt_rec [of 2] upt_rec [of 3] eval_nat_numeral)

lemma flatIndices_3_2:
  "flatIndices 3 2 [0..<2] 0 = [0, 1, 2, 3, 4, 5, 6, 7, 8, 9, 10, 11, 12, 13, 14, 15, 16, 17]"
  by (simp add: upt_rec [of 0] upt_rec [of 1] upt_rec [of 2] eval_nat_numeral
        flatCellIndices_def flatCellVerts_def)

lemma interleaved_records:
  assumes i: "interleavedVertices s' =
        concat (map (record8 (vertices s') (normals s') (texCoords s')) [0..<n])"
    and l: "length (vertices s') = 3 * n"
    and v: "of_nat v < getVertexCount s'"
  shows "interleavedVertices s' ! (8 * v) = vertices s' ! (3 * v) \<and>
         interleavedVertices s' ! (8 * v + 1) = vertices s' ! (3 * v + 1) \<and>
         interleavedVertices s' ! (8 * v + 2) = vertices s' ! (3 * v + 2) \<and>
         interleavedVertices s' ! (8 * v + 3) = normals s' ! (3 * v) \<and>
         interleavedVertices s' ! (8 * v + 4) = normals s' ! (3 * v + 1) \<and>
         interleavedVertices s' ! (8 * v + 5) = normals s' ! (3 * v + 2) \<and>
         interleavedVertices s' ! (8 * v + 6) = texCoords s' ! (2 * v) \<and>
         interleavedVertices s' ! (8 * v + 7) = texCoords s' ! (2 * v + 1)"
proof -
  have "getVertexCount s' = of_nat n" by (simp add: getVertexCount_def l)
  then have vn: "v < n" using v by simp
  have c: "interleavedVertices s' ! (8 * v + c) =
           record8 (vertices s') (normals s') (texCoords s') v ! c" if "c < 8" for c
    unfolding i using vn that by (rule nth_concat_record8)
  have "interleavedVertices s' ! (8 * v) = vertices s' ! (3 * v)"
    using c [of 0] by (simp add: record8_def)
  moreover have "interleavedVertices s' ! (8 * v + 1) = vertices s' ! (3 * v + 1)"
    using c [of 1] by (simp add: record8_def)
  moreover have "interleavedVertices s' ! (8 * v + 2) = vertices s' ! (3 * v + 2)"
    using c [of 2] by (simp add: record8_def)
  moreover have "interleavedVertices s' ! (8 * v + 3) = normals s' ! (3 * v)"
    using c [of 3] by (simp add: record8_def)
  moreover have "interleavedVertices s' ! (8 * v + 4) = normals s' ! (3 * v + 1)"
    using c [of 4] by (simp add: record8_def)
  moreover have "interleavedVertices s' ! (8 * v + 5) = normals s' ! (3 * v + 2)"
    using c [of 5] by (simp add: record8_def)
  moreover have "interleavedVertices s' ! (8 * v + 6) = texCoords s' ! (2 * v)"
    using c [of 6] by (simp add: record8_def)
  moreover have "interleavedVertices s' ! (8 * v + 7) = texCoords s' ! (2 * v + 1)"
    using c [of 7] by (simp add: record8_def)
  ultimately show ?thesis by (intro conjI)
qed

lemma set_sphere_result:
  "\<exists>s'. set_sphere A r se st sm s = Inr s' \<and>
     radius s' = r \<and> sectorCount s' = max 3 se \<and> stackCount s' = max 2 st \<and>
     smooth s' = sm \<and> uploaded s s'"
proof -
  let ?s6 = "s\<lparr>radius := r, sectorCount := max 3 se, stackCount := max 2 st, smooth := sm\<rparr>"
  have e: "set_sphere A r se st sm s =
           (if sm then buildVerticesSmooth A ?s6 else buildVerticesFlat A ?s6)"
    by (simp add: set_sphere_def Let_def max_def)
  have c: "3 \<le> sectorCount ?s6" "2 \<le> stackCount ?s6" by simp_all
  have g: "uploaded ?s6 s' \<Longrightarrow> uploaded s s'" for s' by (simp add: uploaded_def)
  show ?thesis
  proof (cases sm)
    case True
    obtain s' where "buildVerticesSmooth A ?s6 = Inr s'" "radius s' = radius ?s6"
      "sectorCount s' = sectorCount ?s6" "stackCount s' = stackCount ?s6"
      "smooth s' = smooth ?s6" "uploaded ?s6 s'"
      using smooth_mesh [OF c, of A] by blast
    then show ?thesis using True e g by (intro exI [of _ s']) simp
  next
    case False
    obtain s' where "buildVerticesFlat A ?s6 = Inr s'" "radius s' = radius ?s6"
      "sectorCount s' = sectorCount ?s6" "stackCount s' = stackCount ?s6"
      "smooth s' = smooth ?s6" "uploaded ?s6 s'"
      using flat_mesh [OF c, of A] by blast
    then show ?thesis using False e g by (intro exI [of _ s']) simp
  qed
qed

lemma Sphere_result:
  "\<exists>s. Sphere A g r se st sm = Inr s \<and>
     radius s = r \<and> sectorCount s = max 3 se \<and> stackCount s = max 2 st \<and> smooth s = sm"
  using set_sphere_result [of A r se st sm]
  by (simp add: Sphere_def createBuffer_def Let_def) blast

text \<open>
  The constructor stores counts at or above the floors (\<open>Sphere_result\<close>), and every
  setter keeps them there: the spheres a program can hold are those of the claims below.
\<close>

lemma floors_kept:
  assumes "3 \<le> sectorCount s" "2 \<le> stackCount s"
    and "setRadius A r s = Inr s' \<or> setSectorCount A x s = Inr s' \<or>
         setStackCount A y s = Inr s' \<or> setSmooth A b s = Inr s'"
  shows "3 \<le> sectorCount s' \<and> 2 \<le> stackCount s'"
proof -
  have set: "3 \<le> sectorCount s' \<and> 2 \<le> stackCount s'"
    if "set_sphere A r' se st sm s = Inr s'" for r' se st sm
    using set_sphere_result [of A r' se st sm s] that by auto
  have build: "3 \<le> sectorCount s' \<and> 2 \<le> stackCount s'"
    if "(if b then buildVerticesSmooth A (s\<lparr>smooth := b\<rparr>)
         else buildVerticesFlat A (s\<lparr>smooth := b\<rparr>)) = Inr s'"
  proof -
    have c: "3 \<le> sectorCount (s\<lparr>smooth := b\<rparr>)" "2 \<le> stackCount (s\<lparr>smooth := b\<rparr>)"
      using assms(1,2) by simp_all
    show ?thesis
      using smooth_mesh [OF c, of A] flat_mesh [OF c, of A] that assms(1,2)
      by (auto split: if_splits)
  qed
  from assms(3) show ?thesis
    using assms(1,2) set build
    by (auto simp: setRadius_def setSectorCount_def setStackCount_def setSmooth_def Let_def
             split: if_splits)
qed

lemma buildInterleavedVertices_interleave:
  "buildInterleavedVertices A s =
     s\<lparr>interleavedVertices := interleave A (vertices s) (normals s) (texCoords s)\<rparr>"
  by (simp add: buildInterleavedVertices_def interleave_def getVertexCount_def Let_def)

text \<open>What a smooth and a flat build return, array by array.\<close>

lemma smooth_built:
  assumes "3 \<le> sectorCount s" "2 \<le> stackCount s"
  shows "\<exists>s'. buildVerticesSmooth A s = Inr s' \<and>
     vertices s' = smoothVertices A (radius s) (sectorCount s) (stackCount s) \<and>
     normals s' = smoothNormals A (radius s) (sectorCount s) (stackCount s) \<and>
     texCoords s' = smoothTexCoords A (sectorCount s) (stackCount s) \<and>
     indices s' = map word_of_int (spec_smoothIndices (sectorCount s) (stackCount s)) \<and>
     interleavedVertices s' = interleave A (vertices s') (normals s') (texCoords s') \<and>
     radius s' = radius s \<and> sectorCount s' = sectorCount s \<and> stackCount s' = stackCount s \<and>
     smooth s' = smooth s \<and> uploaded s s'"
  unfolding buildVerticesSmooth_arrays [OF assms]
  by (simp add: buildInterleavedVertices_interleave buildVbos_def uploaded_def upload_def)

lemma flat_built:
  assumes "3 \<le> sectorCount s" "2 \<le> stackCount s"
  shows "\<exists>s'. buildVerticesFlat A s = Inr s' \<and>
     vertices s' = flatVertices A (radius s) (sectorCount s) (stackCount s) \<and>
     normals s' = flatNormals A (radius s) (sectorCount s) (stackCount s) \<and>
     texCoords s' = flatTexCoords A (radius s) (sectorCount s) (stackCount s) \<and>
     indices s' = map word_of_int
       (flatIndices (sectorCount s) (stackCount s) [0..<nat (stackCount s)] 0) \<and>
     interleavedVertices s' = interleave A (vertices s') (normals s') (texCoords s') \<and>
     radius s' = radius s \<and> sectorCount s' = sectorCount s \<and> stackCount s' = stackCount s \<and>
     smooth s' = smooth s \<and> uploaded s s'"
  unfolding buildVerticesFlat_arrays [OF assms]
  by (simp add: buildInterleavedVertices_interleave buildVbos_def uploaded_def upload_def)

lemma set_sphere_built:
  "\<exists>s'. set_sphere A r se st sm s = Inr s' \<and>
     radius s' = r \<and> sectorCount s' = max 3 se \<and> stackCount s' = max 2 st \<and>
     smooth s' = sm \<and> rebuilt A s s'"
proof -
  let ?s6 = "s\<lparr>radius := r, sectorCount := max 3 se, stackCount := max 2 st, smooth := sm\<rparr>"
  have e: "set_sphere A r se st sm s =
           (if sm then buildVerticesSmooth A ?s6 else buildVerticesFlat A ?s6)"
    by (simp add: set_sphere_def Let_def max_def)
  have c: "3 \<le> sectorCount ?s6" "2 \<le> stackCount ?s6" by simp_all
  have g: "uploaded ?s6 s' \<Longrightarrow> uploaded s s'" for s' by (simp add: uploaded_def)
  show ?thesis
  proof (cases sm)
    case True
    obtain s' where b: "buildVerticesSmooth A ?s6 = Inr s'"
      and a: "vertices s' = smoothVertices A (radius ?s6) (sectorCount ?s6) (stackCount ?s6)"
        "normals s' = smoothNormals A (radius ?s6) (sectorCount ?s6) (stackCount ?s6)"
        "texCoords s' = smoothTexCoords A (sectorCount ?s6) (stackCount ?s6)"
        "indices s' = map word_of_int (spec_smoothIndices (sectorCount ?s6) (stackCount ?s6))"
        "interleavedVertices s' = interleave A (vertices s') (normals s') (texCoords s')"
      and f: "radius s' = radius ?s6" "sectorCount s' = sectorCount ?s6"
        "stackCount s' = stackCount ?s6" "smooth s' = smooth ?s6"
      and u: "uploaded ?s6 s'"
      using smooth_built [OF c, of A] by blast
    have "meshOf A s'" using a f True by (simp add: meshOf_def)
    then show ?thesis using True e b f g [OF u] by (intro exI [of _ s']) (simp add: rebuilt_def)
  next
    case False
    obtain s' where b: "buildVerticesFlat A ?s6 = Inr s'"
      and a: "vertices s' = flatVertices A (radius ?s6) (sectorCount ?s6) (stackCount ?s6)"
        "normals s' = flatNormals A (radius ?s6) (sectorCount ?s6) (stackCount ?s6)"
        "texCoords s' = flatTexCoords A (radius ?s6) (sectorCount ?s6) (stackCount ?s6)"
        "indices s' = map word_of_int
           (flatIndices (sectorCount ?s6) (stackCount ?s6) [0..<nat (stackCount ?s6)] 0)"
        "interleavedVertices s' = interleave A (vertices s') (normals s') (texCoords s')"
      and f: "radius s' = radius ?s6" "sectorCount s' = sectorCount ?s6"
        "stackCount s' = stackCount ?s6" "smooth s' = smooth ?s6"
      and u: "uploaded ?s6 s'"
      using flat_built [OF c, of A] by blast
    have "meshOf A s'" using a f False by (simp add: meshOf_def)
    then show ?thesis using False e b f g [OF u] by (intro exI [of _ s']) (simp add: rebuilt_def)
  qed
qed

lemma setSmooth_built:
  assumes "3 \<le> sectorCount s" "2 \<le> stackCount s" "smooth s \<noteq> b"
  shows "\<exists>s'. setSmooth A b s = Inr s' \<and> rebuilt A s s' \<and> smooth s' = b \<and>
     radius s' = radius s \<and> sectorCount s' = sectorCount s \<and> stackCount s' = stackCount s"
proof -
  let ?s1 = "s\<lparr>smooth := b\<rparr>"
  have c: "3 \<le> sectorCount ?s1" "2 \<le> stackCount ?s1" using assms by simp_all
  have g: "uploaded ?s1 s' \<Longrightarrow> uploaded s s'" for s' by (simp add: uploaded_def)
  show ?thesis
  proof (cases b)
    case True
    obtain s' where bb: "buildVerticesSmooth A ?s1 = Inr s'"
      and a: "vertices s' = smoothVertices A (radius ?s1) (sectorCount ?s1) (stackCount ?s1)"
        "normals s' = smoothNormals A (radius ?s1) (sectorCount ?s1) (stackCount ?s1)"
        "texCoords s' = smoothTexCoords A (sectorCount ?s1) (stackCount ?s1)"
        "indices s' = map word_of_int (spec_smoothIndices (sectorCount ?s1) (stackCount ?s1))"
        "interleavedVertices s' = interleave A (vertices s') (normals s') (texCoords s')"
      and f: "radius s' = radius ?s1" "sectorCount s' = sectorCount ?s1"
        "stackCount s' = stackCount ?s1" "smooth s' = smooth ?s1"
      and u: "uploaded ?s1 s'"
      using smooth_built [OF c, of A] by blast
    have "meshOf A s'" using a f True by (simp add: meshOf_def)
    then show ?thesis
      using True assms(3) bb f g [OF u]
      by (intro exI [of _ s']) (simp add: rebuilt_def setSmooth_def)
  next
    case False
    obtain s' where bb: "buildVerticesFlat A ?s1 = Inr s'"
      and a: "vertices s' = flatVertices A (radius ?s1) (sectorCount ?s1) (stackCount ?s1)"
        "normals s' = flatNormals A (radius ?s1) (sectorCount ?s1) (stackCount ?s1)"
        "texCoords s' = flatTexCoords A (radius ?s1) (sectorCount ?s1) (stackCount ?s1)"
        "indices s' = map word_of_int
           (flatIndices (sectorCount ?s1) (stackCount ?s1) [0..<nat (stackCount ?s1)] 0)"
        "interleavedVertices s' = interleave A (vertices s') (normals s') (texCoords s')"
      and f: "radius s' = radius ?s1" "sectorCount s' = sectorCount ?s1"
        "stackCount s' = stackCount ?s1" "smooth s' = smooth ?s1"
      and u: "uploaded ?s1 s'"
      using flat_built [OF c, of A] by blast
    have "meshOf A s'" using a f False by (simp add: meshOf_def)
    then show ?thesis
      using False assms(3) bb f g [OF u]
      by (intro exI [of _ s']) (simp add: rebuilt_def setSmooth_def)
  qed
qed

section \<open>Integral parameters: the two models agree\<close>

text \<open>
  On integers every function with numeric counts computes what its counterpart with
  integral counts computes, provided the arrays are within \<open>maxLength\<close>.
\<close>

lemma toInteger_of_int [simp]: "toInteger (of_int n) = n"
  by (simp add: toInteger_def)

lemma toInteger_of_int_plus [simp]:
  "toInteger (of_int n + 1) = n + 1" "toInteger (of_int n + 2) = n + 2"
  "toInteger (of_int n + 3) = n + 3"
proof -
  have "toInteger (of_int (n + 1)) = n + 1" "toInteger (of_int (n + 2)) = n + 2"
    "toInteger (of_int (n + 3)) = n + 3" by (rule toInteger_of_int)+
  then show "toInteger (of_int n + 1) = n + 1" "toInteger (of_int n + 2) = n + 2"
    "toInteger (of_int n + 3) = n + 3" by simp_all
qed

lemma newFloat32ArrayN_of_int:
  "n \<le> maxLength \<Longrightarrow> newFloat32ArrayN A maxLength (of_int n) = newFloat32Array A n"
  by (simp add: newFloat32ArrayN_def newFloat32Array_def)

lemma newUint16ArrayN_of_int:
  "n \<le> maxLength \<Longrightarrow> newUint16ArrayN maxLength (of_int n) = newUint16Array n"
  by (simp add: newUint16ArrayN_def newUint16Array_def)

lemma upToInclN_of_int [simp]: "upToInclN (of_int n) = upToIncl n"
  by (simp add: upToInclN_def upToIncl_def)

lemma upToExclN_of_int [simp]: "upToExclN (of_int n) = upToExcl n"
  by (simp add: upToExclN_def upToExcl_def)

lemma tmpGetN_of_int [simp]: "tmpGetN tmp (of_int k) = tmpGet tmp k"
  by (simp add: tmpGetN_def tmpGet_def)

lemma tmpGetN_of_int_Suc [simp]: "tmpGetN tmp (of_int k + 1) = tmpGet tmp (k + 1)"
  using tmpGetN_of_int [of tmp "k + 1"] by simp

lemma ofSphere_sel [simp]:
  "glN (ofSphere s) = gl s" "radiusN (ofSphere s) = radius s"
  "sectorCountN (ofSphere s) = of_int (sectorCount s)"
  "stackCountN (ofSphere s) = of_int (stackCount s)"
  "smoothN (ofSphere s) = smooth s" "verticesN (ofSphere s) = vertices s"
  "normalsN (ofSphere s) = normals s" "texCoordsN (ofSphere s) = texCoords s"
  "indicesN (ofSphere s) = indices s"
  "interleavedVerticesN (ofSphere s) = interleavedVertices s"
  "strideN (ofSphere s) = stride s" "vboVertexN (ofSphere s) = vboVertex s"
  "vboIndexN (ofSphere s) = vboIndex s"
  by (simp_all add: ofSphere_def)

lemma toSphere_ofSphere [simp]: "toSphere (ofSphere s) = s"
  by (simp add: toSphere_def)

lemma ofSphere_upd:
  "(ofSphere s)\<lparr>verticesN := v\<rparr> = ofSphere (s\<lparr>vertices := v\<rparr>)"
  "(ofSphere s)\<lparr>normalsN := v\<rparr> = ofSphere (s\<lparr>normals := v\<rparr>)"
  "(ofSphere s)\<lparr>texCoordsN := v\<rparr> = ofSphere (s\<lparr>texCoords := v\<rparr>)"
  "(ofSphere s)\<lparr>indicesN := w\<rparr> = ofSphere (s\<lparr>indices := w\<rparr>)"
  "(ofSphere s)\<lparr>interleavedVerticesN := v\<rparr> = ofSphere (s\<lparr>interleavedVertices := v\<rparr>)"
  "(ofSphere s)\<lparr>glN := g\<rparr> = ofSphere (s\<lparr>gl := g\<rparr>)"
  "(ofSphere s)\<lparr>radiusN := r\<rparr> = ofSphere (s\<lparr>radius := r\<rparr>)"
  "(ofSphere s)\<lparr>smoothN := b\<rparr> = ofSphere (s\<lparr>smooth := b\<rparr>)"
  "(ofSphere s)\<lparr>sectorCountN := of_int m\<rparr> = ofSphere (s\<lparr>sectorCount := m\<rparr>)"
  "(ofSphere s)\<lparr>stackCountN := of_int m\<rparr> = ofSphere (s\<lparr>stackCount := m\<rparr>)"
  by (simp_all add: ofSphere_def)

lemma addVertexN_ofSphere [simp]:
  "addVertexN A i x y z (ofSphere s) = ofSphere (addVertex A i x y z s)"
  by (simp add: addVertexN_def addVertex_def ofSphere_upd)

lemma addNormalN_ofSphere [simp]:
  "addNormalN A i x y z (ofSphere s) = ofSphere (addNormal A i x y z s)"
  by (simp add: addNormalN_def addNormal_def ofSphere_upd)

lemma addTexCoordN_ofSphere [simp]:
  "addTexCoordN A i x y (ofSphere s) = ofSphere (addTexCoord A i x y s)"
  by (simp add: addTexCoordN_def addTexCoord_def ofSphere_upd)

lemma addIndicesN_ofSphere:
  "toInteger a = a' \<Longrightarrow> toInteger b = b' \<Longrightarrow> toInteger c = c' \<Longrightarrow>
   addIndicesN i a b c (ofSphere s) = ofSphere (addIndices i a' b' c' s)"
  by (simp add: addIndicesN_def addIndices_def ofSphere_upd)

lemma clearArraysN_ofSphere [simp]: "clearArraysN (ofSphere s) = ofSphere (clearArrays s)"
  by (simp add: clearArraysN_def clearArrays_def ofSphere_def)

lemma buildVbosN_ofSphere [simp]: "buildVbosN (ofSphere s) = ofSphere (buildVbos s)"
  by (simp add: buildVbosN_def buildVbos_def uploadN_def upload_def ofSphere_upd)

lemma fold_ofSphere:
  assumes "\<And>x a. g x (h a) = h (f x a)"
  shows "fold g xs (h a) = h (fold f xs a)"
  by (induction xs arbitrary: a) (simp_all add: assms)

lemma foldE_ofSphere:
  assumes "\<And>x a. g x (h a) = map_sum id h (f x a)"
  shows "foldE g xs (h a) = map_sum id h (foldE f xs a)"
proof (induction xs arbitrary: a)
  case Nil
  show ?case by simp
next
  case (Cons x xs)
  show ?case
  proof (cases "f x a")
    case (Inl e)
    then show ?thesis by (simp add: assms)
  next
    case (Inr b)
    then show ?thesis by (simp add: assms Cons.IH)
  qed
qed

lemma of_nat_eq_of_int_pred: "((of_nat i :: rat) = of_int a - 1) = (int i = a - 1)"
proof -
  have "((of_int (int i) :: rat) = of_int (a - 1)) = (int i = a - 1)" by (rule of_int_eq_iff)
  then show ?thesis by simp
qed

lemma smoothVertexBodyN_ofSphere:
  "smoothVertexBodyN A li ss xy z i j (map_prod ofSphere id a) =
   map_prod ofSphere id (smoothVertexBody A li ss xy z i j a)"
  by (cases a) (simp add: smoothVertexBodyN_def smoothVertexBody_def Let_def)

lemma smoothVertexRowN_ofSphere:
  "smoothVertexRowN A li ss sts i (map_prod ofSphere id a) =
   map_prod ofSphere id (smoothVertexRow A li ss sts i a)"
proof (cases a)
  case (fields s ii jj)
  have "fold (smoothVertexBodyN A li ss xy z i) xs (map_prod ofSphere id (s, ii, jj)) =
        map_prod ofSphere id (fold (smoothVertexBody A li ss xy z i) xs (s, ii, jj))"
    for xy z xs
    by (rule fold_ofSphere) (rule smoothVertexBodyN_ofSphere)
  then show ?thesis
    unfolding fields by (simp add: smoothVertexRowN_def smoothVertexRow_def Let_def)
qed

lemma stackCount_addIndices [simp]:
  "stackCount (addIndices k a b c s) = stackCount s"
  "sectorCount (addIndices k a b c s) = sectorCount s"
  by (simp_all add: addIndices_def)

lemma addIndicesN_upper:
  "addIndicesN kk (of_int k1) (of_int k2) (of_int k1 + 1) (ofSphere s) =
   ofSphere (addIndices kk k1 k2 (k1 + 1) s)"
  by (rule addIndicesN_ofSphere) simp_all

lemma addIndicesN_lower:
  "addIndicesN kk (of_int k1 + 1) (of_int k2) (of_int k2 + 1) (ofSphere s) =
   ofSphere (addIndices kk (k1 + 1) k2 (k2 + 1) s)"
  by (rule addIndicesN_ofSphere) simp_all

lemma addIndicesN_first:
  "addIndicesN kk (of_int index) (of_int index + 1) (of_int index + 2) (ofSphere s) =
   ofSphere (addIndices kk index (index + 1) (index + 2) s)"
  by (rule addIndicesN_ofSphere) simp_all

lemma addIndicesN_second:
  "addIndicesN kk (of_int index + 2) (of_int index + 1) (of_int index + 3) (ofSphere s) =
   ofSphere (addIndices kk (index + 2) (index + 1) (index + 3) s)"
  by (rule addIndicesN_ofSphere) simp_all

lemma smoothIndexBodyN_ofSphere:
  "smoothIndexBodyN i j (ofIndexState a) = ofIndexState (smoothIndexBody i j a)"
  by (cases a)
     (simp add: smoothIndexBodyN_def smoothIndexBody_def ofIndexState_def Let_def
                addIndicesN_upper addIndicesN_lower of_nat_eq_of_int_pred)

lemma smoothIndexRowN_ofSphere:
  "smoothIndexRowN i (map_prod ofSphere id a) = map_prod ofSphere id (smoothIndexRow i a)"
proof (cases a)
  case (Pair s kk)
  have f: "fold (smoothIndexBodyN i) xs (ofIndexState b) =
           ofIndexState (fold (smoothIndexBody i) xs b)" for xs b
    by (rule fold_ofSphere) (rule smoothIndexBodyN_ofSphere)
  have e: "(ofSphere s, kk, of_nat i * (of_int (sectorCount s) + 1),
            of_nat i * (of_int (sectorCount s) + 1) + of_int (sectorCount s) + 1) =
           ofIndexState (s, kk, int i * (sectorCount s + 1),
                         int i * (sectorCount s + 1) + sectorCount s + 1)"
    by (simp add: ofIndexState_def)
  show ?thesis
    unfolding Pair
    by (simp add: smoothIndexRowN_def smoothIndexRow_def Let_def e f del: of_int_add of_int_mult)
       (simp add: ofIndexState_def split: prod.splits)
qed

lemma flatVertexBodyN_ofSphere:
  "flatVertexBodyN A (ofSphere s) ss xy z i j tmp = flatVertexBody A s ss xy z i j tmp"
  by (simp add: flatVertexBodyN_def flatVertexBody_def)

lemma flatVertexRowN_ofSphere:
  "flatVertexRowN A (ofSphere s) ss sts i tmp = flatVertexRow A s ss sts i tmp"
proof -
  have "flatVertexBodyN A (ofSphere s) ss xy z i = flatVertexBody A s ss xy z i" for xy z
    by (intro ext) (rule flatVertexBodyN_ofSphere)
  then show ?thesis by (simp add: flatVertexRowN_def flatVertexRow_def)
qed

lemma putTriangleN_ofSphere:
  "putTriangleN A a b c (map_prod ofSphere id st) = map_prod ofSphere id (putTriangle A a b c st)"
  by (cases st) (simp add: putTriangleN_def putTriangle_def Let_def addIndicesN_first)

lemma putQuadN_ofSphere:
  "putQuadN A a b c d (map_prod ofSphere id st) = map_prod ofSphere id (putQuad A a b c d st)"
  by (cases st)
     (simp add: putQuadN_def putQuad_def Let_def addIndicesN_first addIndicesN_second)

lemma flatBodyN_ofSphere:
  "flatBodyN A tmp i j (ofCellState a) = map_sum id ofCellState (flatBody A tmp i j a)"
proof (cases a)
  case (fields st vi1 vi2)
  have s: "stackCountN (fst (map_prod ofSphere id st)) = of_int (stackCount (fst st))"
    by (cases st) simp
  show ?thesis
    unfolding fields
    by (simp add: flatBodyN_def flatBody_def ofCellState_def Let_def s of_nat_eq_of_int_pred
                  putTriangleN_ofSphere putQuadN_ofSphere
             split: option.splits)
qed

lemma flatRowN_ofSphere:
  "flatRowN A tmp i (map_prod ofSphere id st) =
   map_sum id (map_prod ofSphere id) (flatRow A tmp i st)"
proof -
  have f: "foldE (flatBodyN A tmp i) xs (ofCellState b) =
           map_sum id ofCellState (foldE (flatBody A tmp i) xs b)" for xs b
    by (rule foldE_ofSphere) (rule flatBodyN_ofSphere)
  have s: "sectorCountN (fst (map_prod ofSphere id st)) = of_int (sectorCount (fst st))"
    by (cases st) simp
  have e: "(map_prod ofSphere id st, of_nat i * (of_int (sectorCount (fst st)) + 1),
            (of_nat i + 1) * (of_int (sectorCount (fst st)) + 1)) =
           ofCellState (st, int i * (sectorCount (fst st) + 1),
                        (int i + 1) * (sectorCount (fst st) + 1))"
    by (simp add: ofCellState_def)
  show ?thesis
    unfolding flatRowN_def flatRow_def Let_def s upToExclN_of_int e f
    by (cases "foldE (flatBody A tmp i) (upToExcl (sectorCount (fst st)))
                 (st, int i * (sectorCount (fst st) + 1), (int i + 1) * (sectorCount (fst st) + 1))")
       (auto simp: ofCellState_def)
qed

lemma smoothVertexRowsN_ofSphere:
  "fold (smoothVertexRowN A li ss sts) xs (ofSphere s, ii, jj) =
   map_prod ofSphere id (fold (smoothVertexRow A li ss sts) xs (s, ii, jj))"
  using fold_ofSphere [of "smoothVertexRowN A li ss sts" "map_prod ofSphere id"
                          "smoothVertexRow A li ss sts" xs "(s, ii, jj)"]
  by (simp add: smoothVertexRowN_ofSphere)

lemma smoothIndexRowsN_ofSphere:
  "fold smoothIndexRowN xs (ofSphere s, kk) =
   map_prod ofSphere id (fold smoothIndexRow xs (s, kk))"
  using fold_ofSphere [of smoothIndexRowN "map_prod ofSphere id" smoothIndexRow xs "(s, kk)"]
  by (simp add: smoothIndexRowN_ofSphere)

lemma flatVertexRowsN_ofSphere:
  "fold (flatVertexRowN A (ofSphere s) ss sts) xs tmp = fold (flatVertexRow A s ss sts) xs tmp"
proof -
  have "flatVertexRowN A (ofSphere s) ss sts = flatVertexRow A s ss sts"
    by (intro ext) (rule flatVertexRowN_ofSphere)
  then show ?thesis by simp
qed

lemma flatRowsN_ofSphere:
  "foldE (flatRowN A tmp) xs (ofSphere s, r) =
   map_sum id (map_prod ofSphere id) (foldE (flatRow A tmp) xs (s, r))"
  using foldE_ofSphere [of "flatRowN A tmp" "map_prod ofSphere id" "flatRow A tmp" xs "(s, r)"]
  by (simp add: flatRowN_ofSphere)

lemma two_le_three: "0 \<le> c \<Longrightarrow> 3 * c \<le> m \<Longrightarrow> 2 * c \<le> (m::int)"
  by linarith

lemma resizeArraysSmoothN_ofSphere:
  assumes "3 \<le> sectorCount s" "2 \<le> stackCount s"
    and "3 * ((sectorCount s + 1) * (stackCount s + 1)) \<le> maxLength"
    and "6 * sectorCount s * (stackCount s - 1) \<le> maxLength"
  shows "resizeArraysSmoothN A maxLength (ofSphere s) =
         map_sum id ofSphere (resizeArraysSmooth A s)"
proof -
  let ?s1 = "clearArrays s"
  let ?c = "(sectorCount ?s1 + 1) * (stackCount ?s1 + 1)"
  have k: "sectorCount ?s1 = sectorCount s" "stackCount ?s1 = stackCount s"
    by (simp_all add: clearArrays_def)
  have "0 \<le> ?c" using assms(1,2) by (simp add: k)
  then have l: "3 * ?c \<le> maxLength" "2 * ?c \<le> maxLength"
    "6 * sectorCount ?s1 * (stackCount ?s1 - 1) \<le> maxLength"
    using assms(3,4) by (simp_all add: k)
  have c3: "3 * ((of_int (sectorCount ?s1) + 1) * (of_int (stackCount ?s1) + 1)) =
            (of_int (3 * ?c) :: rat)" by simp
  have c2: "2 * ((of_int (sectorCount ?s1) + 1) * (of_int (stackCount ?s1) + 1)) =
            (of_int (2 * ?c) :: rat)" by simp
  have c6: "6 * of_int (sectorCount ?s1) * (of_int (stackCount ?s1) - 1) =
            (of_int (6 * sectorCount ?s1 * (stackCount ?s1 - 1)) :: rat)" by simp
  show ?thesis
    unfolding resizeArraysSmoothN_def resizeArraysSmooth_def Let_def clearArraysN_ofSphere
      ofSphere_sel c3 c2 c6 newFloat32ArrayN_of_int [OF l(1)] newFloat32ArrayN_of_int [OF l(2)]
      newUint16ArrayN_of_int [OF l(3)]
    by (simp add: ofSphere_upd split: sum.splits)
qed

lemma resizeArraysFlatN_ofSphere:
  assumes "3 \<le> sectorCount s" "2 \<le> stackCount s"
    and "3 * (6 * sectorCount s + 4 * sectorCount s * (stackCount s - 2)) \<le> maxLength"
    and "6 * sectorCount s * (stackCount s - 1) \<le> maxLength"
  shows "resizeArraysFlatN A maxLength (ofSphere s) =
         map_sum id ofSphere (resizeArraysFlat A s)"
proof -
  let ?s1 = "clearArrays s"
  let ?c = "6 * sectorCount ?s1 + 4 * sectorCount ?s1 * (stackCount ?s1 - 2)"
  have k: "sectorCount ?s1 = sectorCount s" "stackCount ?s1 = stackCount s"
    by (simp_all add: clearArrays_def)
  have "0 \<le> sectorCount s * (stackCount s - 2)" using assms(1,2) by simp
  then have c0: "0 \<le> ?c" using assms(1,2) by (simp add: k)
  have l1: "3 * ?c \<le> maxLength" using assms(3) by (simp add: k)
  have l: "3 * ?c \<le> maxLength" "2 * ?c \<le> maxLength"
    "6 * sectorCount ?s1 * (stackCount ?s1 - 1) \<le> maxLength"
    using l1 apply simp
    using two_le_three [OF c0 l1] apply simp
    using assms(4) by (simp add: k)
  have c3: "3 * (6 * of_int (sectorCount ?s1) +
                 4 * of_int (sectorCount ?s1) * (of_int (stackCount ?s1) - 2)) =
            (of_int (3 * ?c) :: rat)" by simp
  have c2: "2 * (6 * of_int (sectorCount ?s1) +
                 4 * of_int (sectorCount ?s1) * (of_int (stackCount ?s1) - 2)) =
            (of_int (2 * ?c) :: rat)" by simp
  have c6: "6 * of_int (sectorCount ?s1) * (of_int (stackCount ?s1) - 1) =
            (of_int (6 * sectorCount ?s1 * (stackCount ?s1 - 1)) :: rat)" by simp
  show ?thesis
    unfolding resizeArraysFlatN_def resizeArraysFlat_def Let_def clearArraysN_ofSphere
      ofSphere_sel c3 c2 c6 newFloat32ArrayN_of_int [OF l(1)] newFloat32ArrayN_of_int [OF l(2)]
      newUint16ArrayN_of_int [OF l(3)]
    by (simp add: ofSphere_upd split: sum.splits)
qed

lemma buildInterleavedVerticesN_ofSphere:
  assumes "length (vertices s) = 3 * n" "8 * int n \<le> maxLength"
  shows "buildInterleavedVerticesN A maxLength (ofSphere s) =
         Inr (ofSphere (buildInterleavedVertices A s))"
proof -
  have q: "getVertexCountN (ofSphere s) * 8 = of_int (8 * int n)"
    by (simp add: getVertexCountN_def assms(1))
  have g: "getVertexCount s * 8 = of_int (8 * int n)"
    by (simp add: getVertexCount_def assms(1))
  have "nat (8 * int n) = 8 * n" by (simp add: nat_mult_distrib)
  then have a: "newFloat32ArrayN A maxLength (of_int (8 * int n)) = Inr (zeros A (8 * n))"
    unfolding newFloat32ArrayN_of_int [OF assms(2)] by (simp add: newFloat32Array_def)
  have fl: "\<lfloor>getVertexCount s * 8\<rfloor> = 8 * int n" unfolding g by (rule floor_of_int)
  have f: "nat \<lfloor>getVertexCount s * 8\<rfloor> = 8 * n"
    unfolding fl by (simp add: nat_mult_distrib)
  show ?thesis
    unfolding buildInterleavedVerticesN_def buildInterleavedVertices_def Let_def q a f
    by (simp add: ofSphere_upd)
qed

lemma three_le_eight: "0 \<le> c \<Longrightarrow> 8 * c \<le> m \<Longrightarrow> 3 * c \<le> (m::int)"
  by linarith

lemma six_le_eight: "0 \<le> c \<Longrightarrow> x \<le> c \<Longrightarrow> 8 * c \<le> m \<Longrightarrow> 6 * x \<le> (m::int)"
  by linarith

lemma smooth_lengths_fit:
  assumes "3 \<le> (sec::int)" "2 \<le> (st::int)" "8 * ((sec + 1) * (st + 1)) \<le> m"
  shows "3 * ((sec + 1) * (st + 1)) \<le> m" "6 * sec * (st - 1) \<le> m"
proof -
  have c0: "0 \<le> (sec + 1) * (st + 1)" using assms(1,2) by simp
  show "3 * ((sec + 1) * (st + 1)) \<le> m" by (rule three_le_eight [OF c0 assms(3)])
  have "sec * (st - 1) \<le> (sec + 1) * (st + 1)" using assms(1,2) by (simp add: algebra_simps)
  from six_le_eight [OF c0 this assms(3)] show "6 * sec * (st - 1) \<le> m"
    by (simp add: mult.assoc)
qed

lemma flat_lengths_fit:
  assumes "3 \<le> (sec::int)" "2 \<le> (st::int)" "8 * (6 * sec + 4 * sec * (st - 2)) \<le> m"
  shows "3 * (6 * sec + 4 * sec * (st - 2)) \<le> m" "6 * sec * (st - 1) \<le> m"
proof -
  have p: "0 \<le> sec * (st - 2)" using assms(1,2) by simp
  then have c0: "0 \<le> 6 * sec + 4 * sec * (st - 2)" using assms(1) by simp
  show "3 * (6 * sec + 4 * sec * (st - 2)) \<le> m" by (rule three_le_eight [OF c0 assms(3)])
  have "sec * (st - 1) = sec + sec * (st - 2)" by (simp add: algebra_simps)
  then have "sec * (st - 1) \<le> 6 * sec + 4 * sec * (st - 2)" using p assms(1) by simp
  from six_le_eight [OF c0 this assms(3)] show "6 * sec * (st - 1) \<le> m"
    by (simp add: mult.assoc)
qed

lemma buildVerticesSmoothN_ofSphere:
  assumes sec: "3 \<le> sectorCount s" and st: "2 \<le> stackCount s"
    and fit: "8 * ((sectorCount s + 1) * (stackCount s + 1)) \<le> maxLength"
  shows "buildVerticesSmoothN A maxLength (ofSphere s) =
         map_sum id ofSphere (buildVerticesSmooth A s)"
proof -
  let ?n = "nat ((sectorCount s + 1) * (stackCount s + 1))"
  have c0: "0 \<le> (sectorCount s + 1) * (stackCount s + 1)" using sec st by simp
  obtain R where r: "resizeArraysSmooth A s = Inr R"
    using resizeArraysSmooth_ok [OF sec st, of A] by simp
  have rN: "resizeArraysSmoothN A maxLength (ofSphere s) = Inr (ofSphere R)"
    using resizeArraysSmoothN_ofSphere [OF sec st smooth_lengths_fit [OF sec st fit], of A] r
    by simp
  define P where "P = fold (smoothVertexRow A (fdiv A (num A 1) (radius R))
       (fdiv A (fmul A (num A 2) (mathPI A)) (num A (of_int (sectorCount R))))
       (fdiv A (mathPI A) (num A (of_int (stackCount R)))))
       (upToIncl (stackCount R)) (R, 0, 0)"
  define Q where "Q = fold smoothIndexRow (upToExcl (stackCount (fst P))) (fst P, 0)"
  have b: "buildVerticesSmooth A s = Inr (buildVbos (buildInterleavedVertices A (fst Q)))"
    by (simp add: buildVerticesSmooth_def r Let_def case_prod_beta P_def Q_def)
  have bN: "buildVerticesSmoothN A maxLength (ofSphere s) =
            (case buildInterleavedVerticesN A maxLength (ofSphere (fst Q)) of
               Inl e \<Rightarrow> Inl e | Inr s3 \<Rightarrow> Inr (buildVbosN s3))"
    by (simp add: buildVerticesSmoothN_def rN Let_def case_prod_beta P_def Q_def
                  smoothVertexRowsN_ofSphere smoothIndexRowsN_ofSphere)
  have len: "length (vertices (fst Q)) = 3 * ?n"
    using smooth_mesh [OF sec st, of A] b by (auto simp: finish_fields)
  have n8: "8 * int ?n \<le> maxLength" using c0 fit by simp
  show ?thesis
    unfolding bN b buildInterleavedVerticesN_ofSphere [OF len n8] by simp
qed

lemma buildVerticesFlatN_ofSphere:
  assumes sec: "3 \<le> sectorCount s" and st: "2 \<le> stackCount s"
    and fit: "8 * (6 * sectorCount s + 4 * sectorCount s * (stackCount s - 2)) \<le> maxLength"
  shows "buildVerticesFlatN A maxLength (ofSphere s) =
         map_sum id ofSphere (buildVerticesFlat A s)"
proof -
  let ?n = "nat (6 * sectorCount s + 4 * sectorCount s * (stackCount s - 2))"
  have "0 \<le> sectorCount s * (stackCount s - 2)" using sec st by simp
  then have c0: "0 \<le> 6 * sectorCount s + 4 * sectorCount s * (stackCount s - 2)"
    using sec by simp
  obtain R where r: "resizeArraysFlat A s = Inr R"
    using resizeArraysFlat_ok [OF sec st, of A] by simp
  have rN: "resizeArraysFlatN A maxLength (ofSphere s) = Inr (ofSphere R)"
    using resizeArraysFlatN_ofSphere [OF sec st flat_lengths_fit [OF sec st fit], of A] r
    by simp
  define tmp where "tmp = fold (flatVertexRow A s
       (fdiv A (fmul A (num A 2) (mathPI A)) (num A (of_int (sectorCount s))))
       (fdiv A (mathPI A) (num A (of_int (stackCount s)))))
       (upToIncl (stackCount s)) []"
  define F where "F = foldE (flatRow A tmp) (upToExcl (stackCount R)) (R, 0, 0, 0, 0)"
  have e: "buildVerticesFlat A s =
           (case F of Inl e \<Rightarrow> Inl e
            | Inr X \<Rightarrow> Inr (buildVbos (buildInterleavedVertices A (fst X))))"
    by (simp add: buildVerticesFlat_def r Let_def F_def tmp_def split: sum.splits prod.splits)
  have eN: "buildVerticesFlatN A maxLength (ofSphere s) =
           (case F of Inl e \<Rightarrow> Inl e
            | Inr X \<Rightarrow>
               (case buildInterleavedVerticesN A maxLength (ofSphere (fst X)) of
                  Inl e \<Rightarrow> Inl e | Inr s2 \<Rightarrow> Inr (buildVbosN s2)))"
    by (simp add: buildVerticesFlatN_def rN Let_def F_def tmp_def flatVertexRowsN_ofSphere
                  flatRowsN_ofSphere split: sum.splits prod.splits)
  obtain s' where bs: "buildVerticesFlat A s = Inr s'" and l': "length (vertices s') = 3 * ?n"
    using flat_mesh [OF sec st, of A] by blast
  obtain X where fx: "F = Inr X" using e bs by (cases F) simp_all
  have "s' = buildVbos (buildInterleavedVertices A (fst X))" using e bs fx by simp
  then have len: "length (vertices (fst X)) = 3 * ?n" using l' by (simp add: finish_fields)
  have n8: "8 * int ?n \<le> maxLength" using c0 fit by simp
  show ?thesis
    unfolding eN e fx using buildInterleavedVerticesN_ofSphere [OF len n8, of A] by simp
qed

lemma setN_ofSphere:
  assumes "8 * (if sm then (max 3 se + 1) * (max 2 st + 1)
                else 6 * max 3 se + 4 * max 3 se * (max 2 st - 2)) \<le> maxLength"
  shows "setN A maxLength r (of_int se) (of_int st) sm (ofSphere s) =
         map_sum id ofSphere (set_sphere A r se st sm s)"
proof -
  let ?s6 = "s\<lparr>radius := r, sectorCount := max 3 se, stackCount := max 2 st, smooth := sm\<rparr>"
  have e: "set_sphere A r se st sm s =
           (if sm then buildVerticesSmooth A ?s6 else buildVerticesFlat A ?s6)"
    by (simp add: set_sphere_def Let_def max_def)
  have eN: "setN A maxLength r (of_int se) (of_int st) sm (ofSphere s) =
           (if sm then buildVerticesSmoothN A maxLength (ofSphere ?s6)
            else buildVerticesFlatN A maxLength (ofSphere ?s6))"
    by (simp add: setN_def Let_def max_def ofSphere_def)
  have c: "3 \<le> sectorCount ?s6" "2 \<le> stackCount ?s6" by simp_all
  show ?thesis
  proof (cases sm)
    case True
    have "8 * ((sectorCount ?s6 + 1) * (stackCount ?s6 + 1)) \<le> maxLength"
      using assms True by simp
    from buildVerticesSmoothN_ofSphere [OF c this, of A] show ?thesis
      unfolding e eN using True by simp
  next
    case False
    have "8 * (6 * sectorCount ?s6 + 4 * sectorCount ?s6 * (stackCount ?s6 - 2)) \<le> maxLength"
      using assms False by simp
    from buildVerticesFlatN_ofSphere [OF c this, of A] show ?thesis
      unfolding e eN using False by simp
  qed
qed

lemma setN_overwrites:
  "setN A maxLength r se st sm t = setN A maxLength r se st sm (ofSphere (toSphere t))"
  by (cases t) (simp add: setN_def Let_def ofSphere_def toSphere_def)

lemma setN_result:
  assumes "8 * (if sm then (max 3 se + 1) * (max 2 st + 1)
                else 6 * max 3 se + 4 * max 3 se * (max 2 st - 2)) \<le> maxLength"
  shows "\<exists>t'. setN A maxLength r (of_int se) (of_int st) sm t = Inr t' \<and>
     sectorCountN t' = of_int (max 3 se) \<and> stackCountN t' = of_int (max 2 st) \<and>
     radiusN t' = r \<and> smoothN t' = sm \<and> rebuilt A (toSphere t) (toSphere t')"
proof -
  obtain s' where b: "set_sphere A r se st sm (toSphere t) = Inr s'"
    and f: "radius s' = r" "sectorCount s' = max 3 se" "stackCount s' = max 2 st"
      "smooth s' = sm"
    and m: "rebuilt A (toSphere t) s'"
    using set_sphere_built [of A r se st sm "toSphere t"] by blast
  have "setN A maxLength r (of_int se) (of_int st) sm t = Inr (ofSphere s')"
    unfolding setN_overwrites [of A maxLength r "of_int se" "of_int st" sm t]
      setN_ofSphere [OF assms] b by simp
  then show ?thesis using f m by (intro exI [of _ "ofSphere s'"]) simp
qed

lemma SphereN_set: "\<exists>t. SphereN A maxLength g r se st sm = setN A maxLength r se st sm t"
  by (simp add: SphereN_def createBuffer_def Let_def) (rule exI, rule refl)

section \<open>Parameters for which a build raises\<close>

text \<open>
  With 3.5 sectors the flat build reads \<open>tmpVertices[4.5]\<close> on its first cell; with
  \<open>10^9\<close> sectors and stacks the first allocation of the smooth build is refused.
\<close>

lemma floor_nine_halves: "\<lfloor>9 / 2 :: rat\<rfloor> = 4"
  by (rule floor_unique) simp_all

lemma ceiling_seven_halves: "\<lceil>7 / 2 :: rat\<rceil> = 4"
  by (rule ceiling_unique) simp_all

lemma tmpGetN_fraction: "tmpGetN tmp (9 / 2) = None"
  by (simp add: tmpGetN_def floor_nine_halves)

lemma flatBodyN_fraction: "flatBodyN A tmp 0 j (st, vi1, 9 / 2) = Inl TypeError"
  by (simp add: flatBodyN_def Let_def tmpGetN_fraction split: option.splits)

lemma upToExclN_fraction: "upToExclN (7 / 2) = 0 # [1..<4]"
  unfolding upToExclN_def ceiling_seven_halves by (simp add: upt_conv_Cons)

lemma flatRowN_fraction:
  assumes "sectorCountN (fst st) = 7 / 2"
  shows "flatRowN A tmp 0 st = Inl TypeError"
proof -
  have v: "(of_nat 0 + 1) * (7 / 2 + 1) = (9 / 2 :: rat)" by simp
  show ?thesis
    unfolding flatRowN_def Let_def assms upToExclN_fraction v
    by (simp add: flatBodyN_fraction)
qed

lemma setN_fraction:
  assumes "63 \<le> maxLength"
  shows "setN A maxLength r (7 / 2) 2 False t = Inl TypeError"
proof -
  let ?s6 = "t\<lparr>radiusN := r, sectorCountN := 7 / 2, stackCountN := 2, smoothN := False\<rparr>"
  have f: "newFloat32ArrayN A maxLength 63 = Inr (zeros A 63)"
    "newFloat32ArrayN A maxLength 42 = Inr (zeros A 42)"
    "newUint16ArrayN maxLength 21 = Inr (replicate 21 0)"
    using assms by (simp_all add: newFloat32ArrayN_def newUint16ArrayN_def toInteger_def)
  obtain R where r: "resizeArraysFlatN A maxLength ?s6 = Inr R" and c: "sectorCountN R = 7 / 2"
    and d: "stackCountN R = 2"
    by (simp add: resizeArraysFlatN_def clearArraysN_def Let_def f)
  have u: "upToExclN 2 = 0 # [1..<2]" by (simp add: upToExclN_def upt_conv_Cons)
  have "foldE (flatRowN A tmp) (upToExclN (stackCountN R)) (R, 0, 0, 0, 0) = Inl TypeError"
    for tmp
    unfolding d u by (simp add: flatRowN_fraction c)
  then have "buildVerticesFlatN A maxLength ?s6 = Inl TypeError"
    by (simp add: buildVerticesFlatN_def Let_def r)
  then show ?thesis by (simp add: setN_def Let_def)
qed

lemma setN_huge:
  "setN A (2 ^ 53 - 1) r (10 ^ 9) (10 ^ 9) True t = Inl RangeError"
  by (simp add: setN_def Let_def buildVerticesSmoothN_def resizeArraysSmoothN_def
                clearArraysN_def newFloat32ArrayN_def toInteger_def)

section \<open>The claims\<close>

text \<open>
  Claim C1. For every radius and every sectorCount \<open>\<ge> 3\<close> and stackCount \<open>\<ge> 2\<close>, a smooth
  build returns a mesh whose \<open>vertices\<close> array is the list of the stored positions of the
  \<open>(sectorCount+1)(stackCount+1)\<close> vertices, stack by stack and sector by sector: three
  numbers for each of them, so that the vertex count is \<open>(sectorCount+1)(stackCount+1)\<close>. For
  radius 1, 3 sectors and 2 stacks the vertex count is 12 (the witness).
\<close>

theorem smooth_vertex_count:
  assumes "3 \<le> sectorCount s" "2 \<le> stackCount s"
  shows "\<exists>s'. buildVerticesSmooth A s = Inr s' \<and>
     vertices s' =
       concat (map (\<lambda>i. concat (map (\<lambda>j. store3 A
                 (spec_position A (radius s) (sectorCount s) (stackCount s) i j))
               [0..<nat (sectorCount s + 1)])) [0..<nat (stackCount s + 1)]) \<and>
     length (vertices s') = 3 * nat ((sectorCount s + 1) * (stackCount s + 1)) \<and>
     getVertexCount s' = of_int ((sectorCount s + 1) * (stackCount s + 1))"
proof -
  obtain s' where b: "buildVerticesSmooth A s = Inr s'"
    and v: "vertices s' = smoothVertices A (radius s) (sectorCount s) (stackCount s)"
    using smooth_built [OF assms, of A] by blast
  have n: "nat (stackCount s + 1) * nat (sectorCount s + 1) =
           nat ((sectorCount s + 1) * (stackCount s + 1))"
    using assms by (intro vertexTotal_smooth) simp_all
  have l: "length (vertices s') = 3 * nat ((sectorCount s + 1) * (stackCount s + 1))"
    unfolding v smoothVertices_def length_grid3 n ..
  have "0 \<le> (sectorCount s + 1) * (stackCount s + 1)" using assms by simp
  then have g: "getVertexCount s' = of_int ((sectorCount s + 1) * (stackCount s + 1))"
    by (simp add: getVertexCount_def l)
  from b v l g show ?thesis by (simp add: smoothVertices_def grid_def)
qed

theorem smooth_vertex_count_witness:
  "\<exists>s'. buildVerticesSmooth ideal (example 3 2 True) = Inr s' \<and>
     length (vertices s') = 36 \<and> getVertexCount s' = 12 \<and>
     take 3 (vertices s') = [0, 0, 1] \<and> drop 33 (vertices s') = [0, 0, - 1]"
proof -
  obtain s' where b: "buildVerticesSmooth ideal (example 3 2 True) = Inr s'"
    and v: "vertices s' =
       concat (map (\<lambda>i. concat (map (\<lambda>j. store3 ideal (spec_position ideal 1 3 2 i j))
               [0..<nat (3 + 1)])) [0..<nat (2 + 1)])"
    and l: "length (vertices s') = 36" and g: "getVertexCount s' = 12"
    using smooth_vertex_count [of "example 3 2 True" ideal] by auto
  have u: "[0..<nat (3 + 1)] = [0, 1, 2, 3]" "[0..<nat (2 + 1)] = [0, 1, 2]"
    by (simp_all add: upt_rec eval_nat_numeral)
  have p0: "store3 ideal (spec_position ideal 1 3 2 0 0) = [0, 0, 1]"
    by (simp add: store3_def spec_position_def ideal_def Let_def)
  have p1: "store3 ideal (spec_position ideal 1 3 2 2 3) = [0, 0, - 1]"
    by (simp add: store3_def spec_position_def ideal_def Let_def)
  have t: "take 3 (vertices s') = [0, 0, 1]" unfolding v u by (simp add: p0)
  have d: "drop 33 (vertices s') = [0, 0, - 1]" unfolding v u by (simp add: p1)
  from b l g t d show ?thesis by simp
qed

text \<open>
  Claim C2. In smooth mode, for sectorCount \<open>\<ge> 3\<close> and stackCount \<open>\<ge> 2\<close>, the index array
  holds exactly the triangles of the specification's generation rule, in its order; their
  number of indices is \<open>6 sectorCount (stackCount - 1)\<close>, which is the length of the
  allocated index array.
\<close>

theorem smooth_index_generation:
  assumes "3 \<le> sectorCount s" "2 \<le> stackCount s"
  shows "\<exists>s'. buildVerticesSmooth A s = Inr s' \<and>
     indices s' = map word_of_int (spec_smoothIndices (sectorCount s) (stackCount s)) \<and>
     int (length (spec_smoothIndices (sectorCount s) (stackCount s))) =
       6 * sectorCount s * (stackCount s - 1) \<and>
     int (getIndexCount s') = 6 * sectorCount s * (stackCount s - 1)"
proof -
  obtain s' where b: "buildVerticesSmooth A s = Inr s'"
    and i: "indices s' = map word_of_int (spec_smoothIndices (sectorCount s) (stackCount s))"
    using smooth_mesh [OF assms, of A] by blast
  have "0 \<le> sectorCount s * (stackCount s - 1)" using assms by simp
  then have n: "int (length (spec_smoothIndices (sectorCount s) (stackCount s))) =
       6 * sectorCount s * (stackCount s - 1)"
    using length_spec_smoothIndices [of "sectorCount s" "stackCount s"] assms
    by (simp add: mult.assoc)
  have "int (getIndexCount s') = 6 * sectorCount s * (stackCount s - 1)"
    unfolding getIndexCount_def i using n by simp
  with b i n show ?thesis by blast
qed

theorem smooth_index_generation_witness:
  "\<exists>s'. buildVerticesSmooth ideal (example 3 2 True) = Inr s' \<and>
     indices s' = [1, 4, 5, 2, 5, 6, 3, 6, 7, 4, 8, 5, 5, 9, 6, 6, 10, 7] \<and>
     getIndexCount s' = 18"
  using smooth_index_generation [of "example 3 2 True" ideal]
  by (simp add: spec_smoothIndices_3_2)

text \<open>
  Claim C3. For sectorCount \<open>\<ge> 3\<close> and stackCount \<open>\<ge> 2\<close>, a flat build returns a mesh whose
  triangle count is \<open>sectorCount + sectorCount + 2 sectorCount (stackCount - 2)\<close>: the index
  array is the emitted list, in which the first and the last stack contribute one triangle
  per sector and every other stack two.
\<close>

theorem flat_triangle_count:
  assumes "3 \<le> sectorCount s" "2 \<le> stackCount s"
  shows "\<exists>s'. buildVerticesFlat A s = Inr s' \<and>
     getTriangleCount s' =
       of_int (sectorCount s + sectorCount s + 2 * sectorCount s * (stackCount s - 2)) \<and>
     indices s' = map word_of_int
       (flatIndices (sectorCount s) (stackCount s) [0..<nat (stackCount s)] 0) \<and>
     (\<forall>i index. length (flatRowIndices (stackCount s) i index (nat (sectorCount s))) =
        3 * (nat (sectorCount s) * (if int i = 0 \<or> int i = stackCount s - 1 then 1 else 2)))"
proof -
  let ?sec = "sectorCount s" and ?st = "stackCount s"
  obtain s' where b: "buildVerticesFlat A s = Inr s'"
    and i: "indices s' = map word_of_int (flatIndices ?sec ?st [0..<nat ?st] 0)"
    using flat_mesh [OF assms, of A] by blast
  have "0 \<le> ?sec * (?st - 1)" using assms by simp
  then have "int (length (indices s')) = 6 * ?sec * (?st - 1)"
    unfolding i using length_flatIndices_all [of ?sec ?st] assms by (simp add: mult.assoc)
  then have "(of_nat (length (indices s')) :: rat) = of_int (6 * ?sec * (?st - 1))"
    by (metis of_int_of_nat_eq)
  then have t: "getTriangleCount s' = of_int (?sec + ?sec + 2 * ?sec * (?st - 2))"
    by (simp add: getTriangleCount_def getIndexCount_def algebra_simps)
  have r: "\<forall>i index. length (flatRowIndices ?st i index (nat ?sec)) =
        3 * (nat ?sec * (if int i = 0 \<or> int i = ?st - 1 then 1 else 2))"
    by (simp add: length_flatRowIndices)
  from b t i r show ?thesis by blast
qed

theorem flat_triangle_count_witness:
  "\<exists>s'. buildVerticesFlat ideal (example 3 2 False) = Inr s' \<and> getTriangleCount s' = 6"
  using flat_triangle_count [of "example 3 2 False" ideal] by auto

text \<open>
  Claim C4, as stated (8 triangles for 4 sectors and 3 stacks in flat mode), fails: with
  3 stacks the middle stack is an interior row and contributes two triangles per sector.
\<close>

theorem flat_4_3_not_8_triangles:
  "map_sum id getTriangleCount (buildVerticesFlat ideal (example 4 3 False)) \<noteq> Inr 8"
proof -
  obtain s' where b: "buildVerticesFlat ideal (example 4 3 False) = Inr s'"
    and i: "indices s' = map word_of_int (flatIndices 4 3 [0..<nat 3] 0)"
    using flat_mesh [of "example 4 3 False" ideal] by auto
  have "length (indices s') = 48"
    unfolding i using length_flatIndices_all [of 4 3] by simp
  then have "getTriangleCount s' = 16"
    by (simp add: getTriangleCount_def getIndexCount_def)
  then show ?thesis by (simp add: b)
qed

text \<open>
  Claim C4, amended. For 4 sectors and 3 stacks a flat build returns exactly 16 triangles:
  4 on the first stack, 8 on the one interior stack, 4 on the last stack.
\<close>

theorem flat_4_3_triangles:
  assumes "sectorCount s = 4" "stackCount s = 3"
  shows "\<exists>s'. buildVerticesFlat A s = Inr s' \<and> getTriangleCount s' = 16 \<and>
     indices s' = map word_of_int (flatIndices 4 3 [0, 1, 2] 0) \<and>
     length (flatRowIndices 3 0 0 4) = 3 * 4 \<and>
     length (flatRowIndices 3 1 12 4) = 3 * 8 \<and>
     length (flatRowIndices 3 2 28 4) = 3 * 4"
proof -
  have u: "[0..<nat 3] = [0, 1, 2]" by (simp add: upt_rec eval_nat_numeral)
  obtain s' where b: "buildVerticesFlat A s = Inr s'"
    and i: "indices s' = map word_of_int (flatIndices 4 3 [0..<nat 3] 0)"
    using flat_mesh [of s A] assms by auto
  have "length (indices s') = 48"
    unfolding i using length_flatIndices_all [of 4 3] by simp
  then have t: "getTriangleCount s' = 16"
    by (simp add: getTriangleCount_def getIndexCount_def)
  have r: "length (flatRowIndices 3 0 0 4) = 3 * 4 \<and>
     length (flatRowIndices 3 1 12 4) = 3 * 8 \<and>
     length (flatRowIndices 3 2 28 4) = 3 * 4"
    by (simp add: length_flatRowIndices)
  from b t i [unfolded u] r show ?thesis by blast
qed

theorem flat_4_3_triangles_witness:
  "\<exists>s'. buildVerticesFlat ideal (example 4 3 False) = Inr s' \<and> getTriangleCount s' = 16"
  using flat_4_3_triangles [of "example 4 3 False" ideal] by auto

text \<open>
  Claim C5. For sectorCount \<open>\<ge> 3\<close> and stackCount \<open>\<ge> 2\<close>, in smooth and in flat mode, every
  element of the index array is strictly less than the vertex count.
\<close>

theorem indices_below_vertex_count:
  assumes "3 \<le> sectorCount s" "2 \<le> stackCount s"
  shows "(\<exists>s'. buildVerticesSmooth A s = Inr s' \<and>
            (\<forall>w \<in> set (indices s'). of_nat (unat w) < getVertexCount s')) \<and>
         (\<exists>s'. buildVerticesFlat A s = Inr s' \<and>
            (\<forall>w \<in> set (indices s'). of_nat (unat w) < getVertexCount s'))"
proof
  let ?sec = "sectorCount s" and ?st = "stackCount s"
  obtain s' where b: "buildVerticesSmooth A s = Inr s'"
    and l: "length (vertices s') = 3 * nat ((?sec + 1) * (?st + 1))"
    and i: "indices s' = map word_of_int (spec_smoothIndices ?sec ?st)"
    using smooth_mesh [OF assms, of A] by blast
  have c: "0 \<le> (?sec + 1) * (?st + 1)" using assms by simp
  have "of_nat (unat w) < getVertexCount s'" if "w \<in> set (indices s')" for w
  proof (rule stored_index_less [OF _ _ l])
    show "w \<in> set (map word_of_int (spec_smoothIndices ?sec ?st))" using that i by simp
    show "0 \<le> x \<and> x < int (nat ((?sec + 1) * (?st + 1)))"
      if "x \<in> set (spec_smoothIndices ?sec ?st)" for x
      using set_spec_smoothIndices [OF that] c by simp
  qed
  with b show "\<exists>s'. buildVerticesSmooth A s = Inr s' \<and>
            (\<forall>w \<in> set (indices s'). of_nat (unat w) < getVertexCount s')" by blast
next
  let ?sec = "sectorCount s" and ?st = "stackCount s"
  let ?n = "nat (6 * ?sec + 4 * ?sec * (?st - 2))"
  obtain s' where b: "buildVerticesFlat A s = Inr s'"
    and l: "length (vertices s') = 3 * ?n"
    and i: "indices s' = map word_of_int (flatIndices ?sec ?st [0..<nat ?st] 0)"
    using flat_mesh [OF assms, of A] by blast
  have v: "sum_list (map (\<lambda>i. flatCellVerts ?st i * nat ?sec) [0..<nat ?st]) = ?n"
    using flatVerts_all [of ?sec ?st] assms by simp
  have "of_nat (unat w) < getVertexCount s'" if "w \<in> set (indices s')" for w
  proof (rule stored_index_less [OF _ _ l])
    show "w \<in> set (map word_of_int (flatIndices ?sec ?st [0..<nat ?st] 0))" using that i by simp
    show "0 \<le> x \<and> x < int ?n" if "x \<in> set (flatIndices ?sec ?st [0..<nat ?st] 0)" for x
      using set_flatIndices [OF that] unfolding v by simp
  qed
  with b show "\<exists>s'. buildVerticesFlat A s = Inr s' \<and>
            (\<forall>w \<in> set (indices s'). of_nat (unat w) < getVertexCount s')" by blast
qed

theorem indices_below_vertex_count_witness:
  "(\<exists>s'. buildVerticesSmooth ideal (example 3 2 True) = Inr s' \<and> indices s' ! 16 = 10 \<and>
          rat_of_nat (unat (indices s' ! 16)) < getVertexCount s') \<and>
   (\<exists>s'. buildVerticesFlat ideal (example 3 2 False) = Inr s' \<and> indices s' ! 17 = 17 \<and>
          rat_of_nat (unat (indices s' ! 17)) < getVertexCount s')"
proof
  obtain s' where b: "buildVerticesSmooth ideal (example 3 2 True) = Inr s'"
    and a: "\<forall>w \<in> set (indices s'). rat_of_nat (unat w) < getVertexCount s'"
    using indices_below_vertex_count [of "example 3 2 True" ideal] by auto
  have i: "indices s' = [1, 4, 5, 2, 5, 6, 3, 6, 7, 4, 8, 5, 5, 9, 6, 6, 10, 7]"
    using smooth_mesh [of "example 3 2 True" ideal] b by (auto simp: spec_smoothIndices_3_2)
  have "indices s' ! 16 \<in> set (indices s')" by (rule nth_mem) (simp add: i)
  then have "rat_of_nat (unat (indices s' ! 16)) < getVertexCount s'" using a by blast
  moreover have "indices s' ! 16 = 10" by (simp add: i)
  ultimately show "\<exists>s'. buildVerticesSmooth ideal (example 3 2 True) = Inr s' \<and>
      indices s' ! 16 = 10 \<and> rat_of_nat (unat (indices s' ! 16)) < getVertexCount s'"
    using b by blast
next
  obtain s' where b: "buildVerticesFlat ideal (example 3 2 False) = Inr s'"
    and a: "\<forall>w \<in> set (indices s'). rat_of_nat (unat w) < getVertexCount s'"
    using indices_below_vertex_count [of "example 3 2 False" ideal] by auto
  have i: "indices s' = [0, 1, 2, 3, 4, 5, 6, 7, 8, 9, 10, 11, 12, 13, 14, 15, 16, 17]"
    using flat_mesh [of "example 3 2 False" ideal] b by (auto simp: flatIndices_3_2)
  have "indices s' ! 17 \<in> set (indices s')" by (rule nth_mem) (simp add: i)
  then have "rat_of_nat (unat (indices s' ! 17)) < getVertexCount s'" using a by blast
  moreover have "indices s' ! 17 = 17" by (simp add: i)
  ultimately show "\<exists>s'. buildVerticesFlat ideal (example 3 2 False) = Inr s' \<and>
      indices s' ! 17 = 17 \<and> rat_of_nat (unat (indices s' ! 17)) < getVertexCount s'"
    using b by blast
qed

text \<open>
  Claim C7. For every mesh returned by either build (sectorCount \<open>\<ge> 3\<close>, stackCount
  \<open>\<ge> 2\<close>) and every vertex \<open>v\<close> below the vertex count, elements \<open>8v..8v+2\<close> of the
  interleaved buffer are elements \<open>3v..3v+2\<close> of \<open>vertices\<close>, elements \<open>8v+3..8v+5\<close> are
  elements \<open>3v..3v+2\<close> of \<open>normals\<close>, and elements \<open>8v+6..8v+7\<close> are elements \<open>2v..2v+1\<close>
  of \<open>texCoords\<close>, exactly; a \<open>Float32Array\<close> element is read and stored unchanged.
\<close>

theorem interleave_roundtrip:
  assumes "f32_exact A" "3 \<le> sectorCount s" "2 \<le> stackCount s"
    and "buildVerticesSmooth A s = Inr s' \<or> buildVerticesFlat A s = Inr s'"
    and "of_nat v < getVertexCount s'"
  shows "interleavedVertices s' ! (8 * v) = vertices s' ! (3 * v) \<and>
         interleavedVertices s' ! (8 * v + 1) = vertices s' ! (3 * v + 1) \<and>
         interleavedVertices s' ! (8 * v + 2) = vertices s' ! (3 * v + 2) \<and>
         interleavedVertices s' ! (8 * v + 3) = normals s' ! (3 * v) \<and>
         interleavedVertices s' ! (8 * v + 4) = normals s' ! (3 * v + 1) \<and>
         interleavedVertices s' ! (8 * v + 5) = normals s' ! (3 * v + 2) \<and>
         interleavedVertices s' ! (8 * v + 6) = texCoords s' ! (2 * v) \<and>
         interleavedVertices s' ! (8 * v + 7) = texCoords s' ! (2 * v + 1)"
  using assms(4)
proof
  assume b: "buildVerticesSmooth A s = Inr s'"
  have "interleavedVertices s' = concat (map (record8 (vertices s') (normals s') (texCoords s'))
          [0..<nat ((sectorCount s + 1) * (stackCount s + 1))])"
    and "length (vertices s') = 3 * nat ((sectorCount s + 1) * (stackCount s + 1))"
    using smooth_mesh [OF assms(2,3), of A] b assms(1) by auto
  then show ?thesis using assms(5) by (rule interleaved_records)
next
  assume b: "buildVerticesFlat A s = Inr s'"
  have "interleavedVertices s' = concat (map (record8 (vertices s') (normals s') (texCoords s'))
          [0..<nat (6 * sectorCount s + 4 * sectorCount s * (stackCount s - 2))])"
    and "length (vertices s') = 3 * nat (6 * sectorCount s + 4 * sectorCount s * (stackCount s - 2))"
    using flat_mesh [OF assms(2,3), of A] b assms(1) by auto
  then show ?thesis using assms(5) by (rule interleaved_records)
qed

theorem interleave_roundtrip_witness:
  "\<exists>s'. buildVerticesSmooth ideal (example 3 2 True) = Inr s' \<and> getVertexCount s' = 12 \<and>
     interleavedVertices s' ! 88 = vertices s' ! 33 \<and>
     interleavedVertices s' ! 89 = vertices s' ! 34 \<and>
     interleavedVertices s' ! 90 = vertices s' ! 35 \<and>
     interleavedVertices s' ! 91 = normals s' ! 33 \<and>
     interleavedVertices s' ! 92 = normals s' ! 34 \<and>
     interleavedVertices s' ! 93 = normals s' ! 35 \<and>
     interleavedVertices s' ! 94 = texCoords s' ! 22 \<and>
     interleavedVertices s' ! 95 = texCoords s' ! 23"
proof -
  obtain s' where b: "buildVerticesSmooth ideal (example 3 2 True) = Inr s'"
    and l: "length (vertices s') = 36"
    using smooth_mesh [of "example 3 2 True" ideal] by auto
  have g: "getVertexCount s' = 12" by (simp add: getVertexCount_def l)
  have "rat_of_nat 11 < getVertexCount s'" by (simp add: g)
  from interleave_roundtrip [OF f32_exact_ideal _ _ disjI1 [OF b] this]
  show ?thesis using b g by simp
qed

text \<open>
  Claim C8. When the magnitude of the cross product of the edges \<open>v2 - v1\<close> and \<open>v3 - v1\<close>
  does not exceed \<open>0.000001\<close>, \<open>computeFaceNormal\<close> returns the zero vector and divides
  nothing; otherwise it returns the cross product divided by its magnitude (as stored in a
  \<open>Float32Array\<close>).
\<close>

theorem computeFaceNormal_cases:
  "(\<not> fgt A (magnitude A (edgeCross A x1 y1 z1 x2 y2 z2 x3 y3 z3)) (num A (1 / 1000000)) \<longrightarrow>
      computeFaceNormal A x1 y1 z1 x2 y2 z2 x3 y3 z3 =
        [toF32 A (num A 0), toF32 A (num A 0), toF32 A (num A 0)]) \<and>
   (fgt A (magnitude A (edgeCross A x1 y1 z1 x2 y2 z2 x3 y3 z3)) (num A (1 / 1000000)) \<longrightarrow>
      computeFaceNormal A x1 y1 z1 x2 y2 z2 x3 y3 z3 =
        scaled A (edgeCross A x1 y1 z1 x2 y2 z2 x3 y3 z3)
                 (magnitude A (edgeCross A x1 y1 z1 x2 y2 z2 x3 y3 z3)))"
  by (simp add: computeFaceNormal_def edgeCross_def magnitude_def scaled_def zeros_def Let_def
        eval_nat_numeral)

theorem computeFaceNormal_cases_witness:
  "computeFaceNormal ideal 0 0 0 1 0 0 2 0 0 = [0, 0, 0] \<and>
   computeFaceNormal ideal 0 0 0 1 0 0 0 1 0 = [0, 0, 1]"
  using computeFaceNormal_cases [of ideal 0 0 0 1 0 0 2 0 0]
        computeFaceNormal_cases [of ideal 0 0 0 1 0 0 0 1 0]
  by (simp add: ideal_def edgeCross_def magnitude_def scaled_def)






end
